theory Spec2Isabelle
  imports Complex_Main "HOL-Library.Stream" "HOL-Library.Sublist"
begin

section \<open>Values, errors and the object store\<close>

text \<open>
  The development embeds \<^verbatim>\<open>nightly_downsample/data_sample_mscoco.py\<close>: the class
  \<^verbatim>\<open>MSCOCODataset\<close> (construction, \<^verbatim>\<open>__getitem__\<close>, \<^verbatim>\<open>_get_single_item\<close> and the two
  \<^verbatim>\<open>_populate_*\<close> methods), \<^verbatim>\<open>data_subsample\<close> and \<^verbatim>\<open>load_data\<close>.

  Every exception of the program is a value of \<open>error\<close>, named after the place that
  raises it. The collaborators that are not part of the file (the base \<^verbatim>\<open>DirDataset\<close>,
  the \<^verbatim>\<open>COCO\<close> annotation index, the random generator, the download and the archive
  extraction) are parameters of the model; a collaborator that fails returns the
  description of its failure, which the program lets through as \<open>External\<close>.
\<close>

datatype error =
    KeyError string           \<comment> \<open>a dict (or the base dataset) has no such string key\<close>
  | IndexKeyError int         \<comment> \<open>the base dataset has no record at this position\<close>
  | TypeError                 \<comment> \<open>\<^verbatim>\<open>annotation['bbox'] + [...]\<close> on a value that is not a list\<close>
  | ParseError string         \<comment> \<open>the \<^verbatim>\<open>ValueError\<close> of \<^verbatim>\<open>int(stem)\<close>, with the offending stem\<close>
  | RandintError              \<comment> \<open>the \<^verbatim>\<open>ValueError\<close> of \<^verbatim>\<open>np.random.randint(0)\<close>\<close>
  | AssertionError string     \<comment> \<open>the \<^verbatim>\<open>assert\<close> of the constructor, with its message\<close>
  | External string           \<comment> \<open>an exception raised inside a collaborator, with its description\<close>

text \<open>
  Annotations are the dicts that the annotation index parsed from JSON. Numbers are
  only carried through, never computed with.
\<close>

datatype json =
    JNull
  | JBool bool
  | JInt int
  | JFloat rat
  | JStr string
  | JList "json list"
  | JObject "(string \<times> json) list"

type_synonym annotation = "string \<rightharpoonup> json"

type_synonym mask = "nat list list"

text \<open>
  The dict handed to the caller. The program reads or writes the five keys below and
  no other; a key that is absent from the dict is \<open>None\<close>. A bounding box entry is the
  tuple \<^verbatim>\<open>tuple(annotation['bbox'] + [annotation['category_id']])\<close>, kept as the list of
  its components.
\<close>

record sample =
  image :: "string option"
  image_id :: "int option"
  bbox :: "json list list option"
  mask :: "mask list option"
  caption :: "json list option"

text \<open>
  Objects live in a store; an address is a position in it and allocation appends.
  The records of the base dataset are objects of the store, so that sharing between
  what an access returns and what the dataset holds can be expressed. A reference of
  the program always denotes an object: the addresses that a dataset holds are
  positions of the store it is used with, which the statements that read a stored
  record say where they need it.

  \<^verbatim>\<open>deepcopy\<close> of a record allocates a new object with the same contents; the values of
  a record are immutable, so nothing below the record is shared or copied.
\<close>

type_synonym addr = nat
type_synonym heap = "sample list"

definition deepcopy :: "heap \<Rightarrow> addr \<Rightarrow> addr \<times> heap" where
  "deepcopy h a = (length h, h @ [h ! a])"

section \<open>File names\<close>

text \<open>
  \<^verbatim>\<open>os.path.basename\<close> and \<^verbatim>\<open>os.path.splitext\<close> as \<^verbatim>\<open>posixpath\<close> defines them
  (\<^verbatim>\<open>rfind\<close> is \<^verbatim>\<open>str.rfind\<close>, with \<open>-1\<close> for no occurrence; a name made of leading dots
  only has no extension), and \<^verbatim>\<open>int(s)\<close> in base 10: surrounding white space is
  dropped, one sign is allowed, leading zeros are, and single underscores may
  separate digits. A character of a path is a code point below 256. Among these the
  white space that \<^verbatim>\<open>int\<close> drops is tab, line feed, vertical tab, form feed, carriage
  return, space, next line (133) and no-break space (160), and the decimal digits are
  the ASCII digits.
\<close>

definition rfind :: "char \<Rightarrow> string \<Rightarrow> int" where
  "rfind c s =
     (if c \<in> set s then int (length s) - 1 - int (length (takeWhile (\<lambda>x. x \<noteq> c) (rev s)))
      else - 1)"

definition basename :: "string \<Rightarrow> string" where
  "basename p = drop (nat (rfind CHR ''/'' p + 1)) p"

definition splitext_root :: "string \<Rightarrow> string" where
  "splitext_root p =
     (let sepIndex = rfind CHR ''/'' p; dotIndex = rfind CHR ''.'' p
      in if dotIndex > sepIndex \<and>
            list_ex (\<lambda>c. c \<noteq> CHR ''.'') (take (nat (dotIndex - (sepIndex + 1))) (drop (nat (sepIndex + 1)) p))
         then take (nat dotIndex) p
         else p)"

definition is_space :: "char \<Rightarrow> bool" where
  "is_space c = ((of_char c :: nat) \<in> {9, 10, 11, 12, 13, 32, 133, 160})"

definition is_digit :: "char \<Rightarrow> bool" where
  "is_digit c = (48 \<le> (of_char c :: nat) \<and> (of_char c :: nat) \<le> 57)"

definition digit_val :: "char \<Rightarrow> nat" where
  "digit_val c = (of_char c :: nat) - 48"

fun int_digits :: "bool \<Rightarrow> nat \<Rightarrow> string \<Rightarrow> nat option" where
  "int_digits after_digit acc [] = (if after_digit then Some acc else None)"
| "int_digits after_digit acc (c # cs) =
     (if is_digit c then int_digits True (10 * acc + digit_val c) cs
      else if c = CHR ''_'' \<and> after_digit then int_digits False acc cs
      else None)"

definition strip :: "string \<Rightarrow> string" where
  "strip s = rev (dropWhile is_space (rev (dropWhile is_space s)))"

definition py_int :: "string \<Rightarrow> int option" where
  "py_int s =
     (case strip s of
        [] \<Rightarrow> None
      | c # cs \<Rightarrow>
          if c = CHR ''-'' then map_option (\<lambda>n. - int n) (int_digits False 0 cs)
          else if c = CHR ''+'' then map_option int (int_digits False 0 cs)
          else map_option int (int_digits False 0 (c # cs)))"

definition image_stem :: "string \<Rightarrow> string" where
  "image_stem p = splitext_root (basename p)"

section \<open>The dataset\<close>

text \<open>
  The annotation index (\<^verbatim>\<open>pycocotools.coco.COCO\<close>) is used through three methods.
  \<open>getAnnIds c i crowd\<close> is \<^verbatim>\<open>getAnnIds(imgIds=i, iscrowd=crowd)\<close>, with \<open>None\<close> for the
  default of the keyword.
\<close>

record coco =
  getAnnIds :: "int \<Rightarrow> bool option \<Rightarrow> int list"
  loadAnns :: "int list \<Rightarrow> annotation list"
  annToMask :: "annotation \<Rightarrow> string + mask"

text \<open>
  Modelled from the spec: the base class \<^verbatim>\<open>DirDataset\<close> of the \<^verbatim>\<open>fastestimator\<close> library,
  which is not part of the file. It holds one record per position (\<open>data\<close>, the
  addresses of the records in the store, each record being \<^verbatim>\<open>{"image": path}\<close> as
  \<^verbatim>\<open>data_key="image"\<close> asks), and its length is the number of its records.

  What the base yields for a string key is left to the base (\<open>by_key\<close>, which sees the
  key and the store): it does not know the key, or it hands out an object that is in
  the store already, or it builds a new value, which is then allocated. A plain
  retrieval changes no object.
\<close>

datatype key_result = Unknown | Stored addr | Fresh sample

record base =
  data :: "addr list"
  by_key :: "string \<Rightarrow> heap \<Rightarrow> key_result"

text \<open>
  \<^verbatim>\<open>MSCOCODataset\<close> adds the two flags and the two index handles; \<open>captions\<close> is \<^verbatim>\<open>None\<close>
  unless captions were requested.
\<close>

record dataset = base +
  include_bboxes :: bool
  include_masks :: bool
  instances :: coco
  captions :: "coco option"

datatype index = IntIdx int | StrKey string

definition len :: "dataset \<Rightarrow> nat" where
  "len ds = length (data ds)"

text \<open>
  Modelled from the spec: \<^verbatim>\<open>super().__getitem__(index)\<close>, the plain retrieval of the base
  dataset. For a position it hands out the stored record itself, not a copy (which is
  why \<^verbatim>\<open>_get_single_item\<close> copies), and raises for a position it does not have. For a
  string key it raises for a key it does not know, and otherwise hands out what the
  base yields for the key: a stored object, or a newly allocated one.
\<close>

definition base_getitem :: "dataset \<Rightarrow> heap \<Rightarrow> index \<Rightarrow> (error + addr) \<times> heap" where
  "base_getitem ds h index =
     (case index of
        IntIdx i \<Rightarrow>
          if 0 \<le> i \<and> i < int (length (data ds)) then (Inr (data ds ! nat i), h)
          else (Inl (IndexKeyError i), h)
      | StrKey k \<Rightarrow>
          (case by_key ds k h of
             Unknown \<Rightarrow> (Inl (KeyError k), h)
           | Stored a \<Rightarrow> (Inr a, h)
           | Fresh v \<Rightarrow> (Inr (length h), h @ [v])))"

subsection \<open>Joining the annotations\<close>

definition bbox_entry :: "annotation \<Rightarrow> error + json list" where
  "bbox_entry ann =
     (case ann ''bbox'' of
        None \<Rightarrow> Inl (KeyError ''bbox'')
      | Some b \<Rightarrow>
          (case ann ''category_id'' of
             None \<Rightarrow> Inl (KeyError ''category_id'')
           | Some c \<Rightarrow>
               (case b of JList l \<Rightarrow> Inr (l @ [c]) | _ \<Rightarrow> Inl TypeError)))"

text \<open>
  The loop of \<^verbatim>\<open>_populate_instance_data\<close>. \<^verbatim>\<open>data["bbox"]\<close> is looked up before the
  argument of \<^verbatim>\<open>append\<close> is evaluated.
\<close>

fun append_instances :: "dataset \<Rightarrow> sample \<Rightarrow> annotation list \<Rightarrow> error + sample" where
  "append_instances ds d [] = Inr d"
| "append_instances ds d (ann # anns) =
     (case bbox d of
        None \<Rightarrow> Inl (KeyError ''bbox'')
      | Some bs \<Rightarrow>
          (case bbox_entry ann of
             Inl e \<Rightarrow> Inl e
           | Inr t \<Rightarrow>
               (let d1 = d\<lparr>bbox := Some (bs @ [t])\<rparr>
                in if include_masks ds then
                     (case mask d1 of
                        None \<Rightarrow> Inl (KeyError ''mask'')
                      | Some ms \<Rightarrow>
                          (case annToMask (instances ds) ann of
                             Inl msg \<Rightarrow> Inl (External msg)
                           | Inr m \<Rightarrow> append_instances ds (d1\<lparr>mask := Some (ms @ [m])\<rparr>) anns))
                   else append_instances ds d1 anns)))"

definition populate_instance_data :: "dataset \<Rightarrow> sample \<Rightarrow> int \<Rightarrow> error + sample" where
  "populate_instance_data ds d0 img =
     (let d1 = d0\<lparr>bbox := Some []\<rparr>;
          d2 = (if include_masks ds then d1\<lparr>mask := Some []\<rparr> else d1);
          annotation_ids = getAnnIds (instances ds) img (Some False)
      in if annotation_ids \<noteq> [] then append_instances ds d2 (loadAnns (instances ds) annotation_ids)
         else Inr d2)"

fun append_captions :: "sample \<Rightarrow> annotation list \<Rightarrow> error + sample" where
  "append_captions d [] = Inr d"
| "append_captions d (ann # anns) =
     (case caption d of
        None \<Rightarrow> Inl (KeyError ''caption'')
      | Some cs \<Rightarrow>
          (case ann ''caption'' of
             None \<Rightarrow> Inl (KeyError ''caption'')
           | Some c \<Rightarrow> append_captions (d\<lparr>caption := Some (cs @ [c])\<rparr>) anns))"

definition populate_caption_data :: "coco \<Rightarrow> sample \<Rightarrow> int \<Rightarrow> error + sample" where
  "populate_caption_data cap d0 img =
     (let d1 = d0\<lparr>caption := Some []\<rparr>;
          annotation_ids = getAnnIds cap img None
      in if annotation_ids \<noteq> [] then append_captions d1 (loadAnns cap annotation_ids)
         else Inr d1)"

text \<open>
  Lines 75 to 82 of \<^verbatim>\<open>_get_single_item\<close>, on the copy. The copy is referenced by the
  local variable \<^verbatim>\<open>response\<close> alone until it is returned, so its in-place updates are
  computed on the value and stored back at its address.
\<close>

definition join_annotations :: "dataset \<Rightarrow> sample \<Rightarrow> error + sample" where
  "join_annotations ds response =
     (case image response of
        None \<Rightarrow> Inl (KeyError ''image'')
      | Some img \<Rightarrow>
          (case py_int (image_stem img) of
             None \<Rightarrow> Inl (ParseError (image_stem img))
           | Some n \<Rightarrow>
               (case (if include_bboxes ds
                      then populate_instance_data ds (response\<lparr>image_id := Some n\<rparr>) n
                      else Inr (response\<lparr>image_id := Some n\<rparr>)) of
                  Inl e \<Rightarrow> Inl e
                | Inr r1 \<Rightarrow>
                    (case captions ds of
                       None \<Rightarrow> Inr r1
                     | Some cap \<Rightarrow> populate_caption_data cap r1 n))))"

definition get_single_item :: "dataset \<Rightarrow> heap \<Rightarrow> index \<Rightarrow> (error + addr) \<times> heap" where
  "get_single_item ds h index =
     (case base_getitem ds h index of
        (Inl e, h0) \<Rightarrow> (Inl e, h0)
      | (Inr a, h0) \<Rightarrow>
          (case index of
             StrKey k \<Rightarrow> (Inr a, h0)
           | IntIdx i \<Rightarrow>
               (let (c, h1) = deepcopy h0 a
                in case join_annotations ds (h1 ! c) of
                     Inl e \<Rightarrow> (Inl e, h1)
                   | Inr r \<Rightarrow> (Inr c, h1[c := r]))))"

subsection \<open>Indexed access\<close>

text \<open>
  The three tests of the loop body. A flag guards each subscript, as \<^verbatim>\<open>and\<close> does.
\<close>

definition has_data :: "dataset \<Rightarrow> sample \<Rightarrow> error + bool" where
  "has_data ds response =
     (case (if include_bboxes ds
            then (case bbox response of None \<Rightarrow> Inl (KeyError ''bbox'') | Some bs \<Rightarrow> Inr (bs \<noteq> []))
            else Inr True) of
        Inl e \<Rightarrow> Inl e
      | Inr has_box \<Rightarrow>
          (case (if include_masks ds
                 then (case mask response of None \<Rightarrow> Inl (KeyError ''mask'') | Some ms \<Rightarrow> Inr (ms \<noteq> []))
                 else Inr True) of
             Inl e \<Rightarrow> Inl e
           | Inr has_mask \<Rightarrow>
               (case (if captions ds \<noteq> None
                      then (case caption response of None \<Rightarrow> Inl (KeyError ''caption'') | Some cs \<Rightarrow> Inr (cs \<noteq> []))
                      else Inr True) of
                  Inl e \<Rightarrow> Inl e
                | Inr has_caption \<Rightarrow> Inr (has_box \<and> has_mask \<and> has_caption))))"

text \<open>
  \<^verbatim>\<open>np.random.randint(n)\<close> returns some position below \<open>n\<close> and raises when \<open>n\<close> is
  zero. The generator is a stream of naturals, each reduced into the range.
\<close>

definition randint :: "nat \<Rightarrow> nat stream \<Rightarrow> error + (nat \<times> nat stream)" where
  "randint n rnd = (if n = 0 then Inl RandintError else Inr (shd rnd mod n, stl rnd))"

text \<open>
  \<^verbatim>\<open>__getitem__\<close>. The loop has no bound, so the function is partial: \<open>None\<close> is
  the access that never returns. A new position is drawn at the end of every round,
  also of the last one.
\<close>

partial_function (option) getitem ::
  "dataset \<Rightarrow> nat stream \<Rightarrow> heap \<Rightarrow> index \<Rightarrow> ((error + addr) \<times> heap) option" where
  "getitem ds rnd h index =
     (case get_single_item ds h index of
        (Inl e, h1) \<Rightarrow> Some (Inl e, h1)
      | (Inr a, h1) \<Rightarrow>
          (case has_data ds (h1 ! a) of
             Inl e \<Rightarrow> Some (Inl e, h1)
           | Inr found \<Rightarrow>
               (case randint (len ds) rnd of
                  Inl e \<Rightarrow> Some (Inl e, h1)
                | Inr (j, rnd1) \<Rightarrow>
                    if found then Some (Inr a, h1)
                    else getitem ds rnd1 h1 (IntIdx (int j)))))"

section \<open>Construction\<close>

text \<open>
  A directory is known by what \<^verbatim>\<open>os.walk\<close> lists for it: one entry per directory of the
  tree, top down, with the names of its files. A path that does not exist has no
  listing.
\<close>

type_synonym listing = "(string \<times> string list) list"
type_synonym fs = "string \<rightharpoonup> listing"

text \<open>
  The operations of the collaborators: \<open>DirDataset\<close> builds the base dataset over a
  directory (allocating its records), \<open>COCO\<close> loads an annotation file, \<open>unpack\<close>
  downloads and extracts an archive and yields the listing of the directory it
  creates.
\<close>

record env =
  DirDataset :: "listing option \<Rightarrow> heap \<Rightarrow> (string + base) \<times> heap"
  COCO :: "string \<Rightarrow> string + coco"
  unpack :: "string \<Rightarrow> string + listing"

text \<open>
  \<^verbatim>\<open>MSCOCODataset.__init__\<close>: the base class is initialised first, then the assertion is
  checked (assertions are enabled), then the annotation sources are loaded. The
  third component of the result lists, in order, the annotation files handed to
  \<^verbatim>\<open>COCO(...)\<close>.
\<close>

definition MSCOCODataset_init ::
  "env \<Rightarrow> fs \<Rightarrow> heap \<Rightarrow> string \<Rightarrow> string \<Rightarrow> string \<Rightarrow> bool \<Rightarrow> bool \<Rightarrow> bool
     \<Rightarrow> (error + dataset) \<times> heap \<times> string list" where
  "MSCOCODataset_init env files h image_dir annotation_file caption_file
       load_bboxes load_masks load_captions =
     (case DirDataset env (files image_dir) h of
        (Inl msg, h1) \<Rightarrow> (Inl (External msg), h1, [])
      | (Inr b, h1) \<Rightarrow>
          if load_masks \<and> \<not> load_bboxes
          then (Inl (AssertionError ''must include bboxes with mask data''), h1, [])
          else
            (case COCO env annotation_file of
               Inl msg \<Rightarrow> (Inl (External msg), h1, [annotation_file])
             | Inr inst \<Rightarrow>
                 if load_captions then
                   (case COCO env caption_file of
                      Inl msg \<Rightarrow> (Inl (External msg), h1, [annotation_file, caption_file])
                    | Inr cap \<Rightarrow>
                        (Inr \<lparr>data = data b, by_key = by_key b,
                              include_bboxes = load_bboxes, include_masks = load_masks,
                              instances = inst, captions = Some cap\<rparr>,
                         h1, [annotation_file, caption_file]))
                 else
                   (Inr \<lparr>data = data b, by_key = by_key b,
                         include_bboxes = load_bboxes, include_masks = load_masks,
                         instances = inst, captions = None\<rparr>,
                    h1, [annotation_file])))"

section \<open>Subsampling and bootstrap\<close>

definition os_path_join :: "string \<Rightarrow> string \<Rightarrow> string" where
  "os_path_join a b =
     (if b \<noteq> [] \<and> hd b = CHR ''/'' then b
      else if a = [] \<or> last a = CHR ''/'' then a @ b
      else a @ ''/'' @ b)"

text \<open>
  \<^verbatim>\<open>data_subsample\<close>. The inner loop runs over the files of one directory, the outer
  loop over the entries of the walk; \<^verbatim>\<open>img_count\<close> is threaded through both. A file
  given to \<^verbatim>\<open>os.remove\<close> is no longer listed.
\<close>

fun subsample_files :: "int \<Rightarrow> int \<Rightarrow> string list \<Rightarrow> int \<times> string list" where
  "subsample_files sample_num img_count [] = (img_count, [])"
| "subsample_files sample_num img_count (f # filenames) =
     (if img_count < sample_num
      then (let (c, kept) = subsample_files sample_num (img_count + 1) filenames in (c, f # kept))
      else subsample_files sample_num img_count filenames)"

fun subsample_walk :: "int \<Rightarrow> int \<Rightarrow> listing \<Rightarrow> listing" where
  "subsample_walk sample_num img_count [] = []"
| "subsample_walk sample_num img_count ((dirpath, filenames) # rest) =
     (let (c, kept) = subsample_files sample_num img_count filenames
      in (dirpath, kept) # subsample_walk sample_num c rest)"

definition data_subsample :: "fs \<Rightarrow> string \<Rightarrow> int \<Rightarrow> fs" where
  "data_subsample files source_dir sample_num =
     (case files source_dir of
        None \<Rightarrow> files
      | Some w \<Rightarrow> files(source_dir \<mapsto> subsample_walk sample_num 0 w))"

definition files_of :: "listing \<Rightarrow> string list" where
  "files_of w = concat (map (\<lambda>(dirpath, filenames). map (os_path_join dirpath) filenames) w)"

text \<open>
  The files of the directory itself, the first entry of its walk: what a base dataset
  built with \<^verbatim>\<open>recursive_search=False\<close> looks at.
\<close>

definition top_files :: "listing \<Rightarrow> string list" where
  "top_files w =
     (case w of [] \<Rightarrow> [] | (dirpath, filenames) # rest \<Rightarrow> map (os_path_join dirpath) filenames)"

text \<open>
  The base dataset, built over a directory with this listing, holds one record per
  file of the directory itself.
\<close>

definition one_record_per_file :: "env \<Rightarrow> listing \<Rightarrow> bool" where
  "one_record_per_file env w =
     (\<forall>hx b hy. DirDataset env (Some w) hx = (Inr b, hy) \<longrightarrow>
        length (data b) = length (top_files w))"

text \<open>
  The loop of \<^verbatim>\<open>load_data\<close> over the three archives: a directory that exists is left
  alone, a missing one is downloaded and extracted; the first failure aborts.
\<close>

fun extract_missing :: "env \<Rightarrow> fs \<Rightarrow> (string \<times> string) list \<Rightarrow> (error + unit) \<times> fs" where
  "extract_missing env files [] = (Inr (), files)"
| "extract_missing env files ((data_dir, zip_name) # rest) =
     (case files data_dir of
        Some w \<Rightarrow> extract_missing env files rest
      | None \<Rightarrow>
          (case unpack env zip_name of
             Inl msg \<Rightarrow> (Inl (External msg), files)
           | Inr w \<Rightarrow> extract_missing env (files(data_dir \<mapsto> w)) rest))"

text \<open>
  \<^verbatim>\<open>load_data\<close>, from the resolved root directory on (\<open>root_dir\<close> is the path that ends
  in \<^verbatim>\<open>MSCOCO2017\<close>). Both splits are subsampled first; the archives are fetched after
  that, and the two datasets are constructed last.
\<close>

definition load_data ::
  "env \<Rightarrow> fs \<Rightarrow> heap \<Rightarrow> string \<Rightarrow> int \<Rightarrow> bool \<Rightarrow> bool \<Rightarrow> bool
     \<Rightarrow> (error + dataset \<times> dataset) \<times> fs \<times> heap" where
  "load_data env files h root_dir sample_num load_bboxes load_masks load_captions =
     (let train_data = os_path_join root_dir ''train2017'';
          eval_data = os_path_join root_dir ''val2017'';
          annotation_data = os_path_join root_dir ''annotations'';
          files1 = data_subsample files train_data sample_num;
          files2 = data_subsample files1 eval_data sample_num
      in case extract_missing env files2
                [(train_data, ''train2017.zip''), (eval_data, ''val2017.zip''),
                 (annotation_data, ''annotations_trainval2017.zip'')] of
           (Inl e, files3) \<Rightarrow> (Inl e, files3, h)
         | (Inr u, files3) \<Rightarrow>
             (case MSCOCODataset_init env files3 h train_data
                     (os_path_join annotation_data ''instances_train2017.json'')
                     (os_path_join annotation_data ''captions_train2017.json'')
                     load_bboxes load_masks load_captions of
                (Inl e, h1, opened) \<Rightarrow> (Inl e, files3, h1)
              | (Inr train_ds, h1, opened) \<Rightarrow>
                  (case MSCOCODataset_init env files3 h1 eval_data
                          (os_path_join annotation_data ''instances_val2017.json'')
                          (os_path_join annotation_data ''captions_val2017.json'')
                          load_bboxes load_masks load_captions of
                     (Inl e, h2, opened2) \<Rightarrow> (Inl e, files3, h2)
                   | (Inr eval_ds, h2, opened2) \<Rightarrow> (Inr (train_ds, eval_ds), files3, h2))))"

section \<open>The annotations of an image\<close>

text \<open>
  The annotations that \<^verbatim>\<open>_populate_instance_data\<close> and \<^verbatim>\<open>_populate_caption_data\<close> iterate
  over: the result of \<^verbatim>\<open>loadAnns\<close> on the ids that \<^verbatim>\<open>getAnnIds\<close> returns, and nothing when
  there is no id.
\<close>

definition noncrowd_annotations :: "dataset \<Rightarrow> int \<Rightarrow> annotation list" where
  "noncrowd_annotations ds img =
     (let annotation_ids = getAnnIds (instances ds) img (Some False)
      in if annotation_ids \<noteq> [] then loadAnns (instances ds) annotation_ids else [])"

definition caption_annotations :: "coco \<Rightarrow> int \<Rightarrow> annotation list" where
  "caption_annotations cap img =
     (let annotation_ids = getAnnIds cap img None
      in if annotation_ids \<noteq> [] then loadAnns cap annotation_ids else [])"

text \<open>The lengths of the two datasets that \<^verbatim>\<open>load_data\<close> returns.\<close>

definition loaded_lengths :: "(error + dataset \<times> dataset) \<times> fs \<times> heap \<Rightarrow> error + nat \<times> nat" where
  "loaded_lengths r =
     (case fst r of Inl e \<Rightarrow> Inl e | Inr (train_ds, eval_ds) \<Rightarrow> Inr (len train_ds, len eval_ds))"

section \<open>Example data\<close>

text \<open>
  A small annotation index over a list of annotation dicts, standing in for
  \<^verbatim>\<open>pycocotools\<close> in the examples, and a store of three base records: image 2 has no
  annotation, image 1 has two object annotations, one crowd annotation and one
  caption, and the third file is not an image.
\<close>

definition ann_id :: "annotation \<Rightarrow> int" where
  "ann_id a = (case a ''id'' of Some (JInt k) \<Rightarrow> k | _ \<Rightarrow> 0)"

definition coco_index :: "annotation list \<Rightarrow> coco" where
  "coco_index anns =
     \<lparr>getAnnIds = (\<lambda>img crowd.
        map ann_id
          (filter (\<lambda>a. a ''image_id'' = Some (JInt img) \<and>
                       (case crowd of
                          None \<Rightarrow> True
                        | Some c \<Rightarrow> a ''iscrowd'' = Some (JInt (if c then 1 else 0))))
             anns)),
      loadAnns = (\<lambda>ids. concat (map (\<lambda>k. filter (\<lambda>a. ann_id a = k) anns) ids)),
      annToMask = (\<lambda>a. case a ''segmentation'' of
                          None \<Rightarrow> Inl ''no segmentation''
                        | Some s \<Rightarrow> Inr [[0, 1], [1, 1]])\<rparr>"

definition ex_instance_anns :: "annotation list" where
  "ex_instance_anns =
     [[''id'' \<mapsto> JInt 10, ''image_id'' \<mapsto> JInt 1, ''iscrowd'' \<mapsto> JInt 0,
       ''bbox'' \<mapsto> JList [JInt 5, JInt 6, JInt 20, JInt 30], ''category_id'' \<mapsto> JInt 18,
       ''segmentation'' \<mapsto> JList []],
      [''id'' \<mapsto> JInt 11, ''image_id'' \<mapsto> JInt 1, ''iscrowd'' \<mapsto> JInt 1,
       ''bbox'' \<mapsto> JList [JInt 0, JInt 0, JInt 64, JInt 48], ''category_id'' \<mapsto> JInt 1,
       ''segmentation'' \<mapsto> JList []],
      [''id'' \<mapsto> JInt 12, ''image_id'' \<mapsto> JInt 1, ''iscrowd'' \<mapsto> JInt 0,
       ''bbox'' \<mapsto> JList [JFloat (1 / 2), JInt 2, JInt 8, JInt 9], ''category_id'' \<mapsto> JInt 3,
       ''segmentation'' \<mapsto> JList []]]"

definition ex_caption_anns :: "annotation list" where
  "ex_caption_anns =
     [[''id'' \<mapsto> JInt 70, ''image_id'' \<mapsto> JInt 1, ''caption'' \<mapsto> JStr ''a dog'']]"

definition ex_record :: "string \<Rightarrow> sample" where
  "ex_record p = \<lparr>image = Some p, image_id = None, bbox = None, mask = None, caption = None\<rparr>"

definition ex_heap :: heap where
  "ex_heap = [ex_record ''val2017/000002.jpg'', ex_record ''val2017/000001.jpg'',
              ex_record ''val2017/notes.txt'']"

text \<open>The samples joined for image 2 and image 1 when everything is requested.\<close>

definition ex_sample_2 :: sample where
  "ex_sample_2 = \<lparr>image = Some ''val2017/000002.jpg'', image_id = Some 2,
                   bbox = Some [], mask = Some [], caption = Some []\<rparr>"

definition ex_sample_1 :: sample where
  "ex_sample_1 = \<lparr>image = Some ''val2017/000001.jpg'', image_id = Some 1,
                   bbox = Some [[JInt 5, JInt 6, JInt 20, JInt 30, JInt 18],
                                [JFloat (1 / 2), JInt 2, JInt 8, JInt 9, JInt 3]],
                   mask = Some [[[0, 1], [1, 1]], [[0, 1], [1, 1]]],
                   caption = Some [JStr ''a dog'']\<rparr>"

text \<open>The sample joined for image 2 when only bounding boxes are requested.\<close>

definition ex_sample_2_boxes :: sample where
  "ex_sample_2_boxes = \<lparr>image = Some ''val2017/000002.jpg'', image_id = Some 2,
                         bbox = Some [], mask = None, caption = None\<rparr>"

text \<open>
  String keys of the example base: \<open>first\<close> names the stored record at the given
  address, \<open>blank\<close> yields a new record, and no other key is known.
\<close>

definition ex_by_key :: "addr \<Rightarrow> string \<Rightarrow> heap \<Rightarrow> key_result" where
  "ex_by_key a k h =
     (if k = ''first'' then Stored a
      else if k = ''blank'' then Fresh (ex_record ''blank.jpg'')
      else Unknown)"

text \<open>A dataset over the given records of \<open>ex_heap\<close>.\<close>

definition ex_ds :: "addr list \<Rightarrow> bool \<Rightarrow> bool \<Rightarrow> bool \<Rightarrow> dataset" where
  "ex_ds records load_bboxes load_masks load_captions =
     \<lparr>data = records, by_key = ex_by_key 0,
      include_bboxes = load_bboxes, include_masks = load_masks,
      instances = coco_index ex_instance_anns,
      captions = (if load_captions then Some (coco_index ex_caption_anns) else None)\<rparr>"

text \<open>
  Collaborators for the examples: the base dataset has one record per file of the
  directory itself, the two annotation files load, and each archive unpacks to a
  fixed listing.
\<close>

definition ex_env :: env where
  "ex_env =
     \<lparr>DirDataset = (\<lambda>l h.
        case l of
          None \<Rightarrow> (Inl ''not a directory'', h)
        | Some w \<Rightarrow>
            (Inr \<lparr>data = [length h ..< length h + length (top_files w)],
                  by_key = ex_by_key (length h)\<rparr>,
             h @ map ex_record (top_files w))),
      COCO = (\<lambda>f. if f \<in> {''instances.json'', ''MSCOCO2017/annotations/instances_train2017.json'',
                           ''MSCOCO2017/annotations/instances_val2017.json''}
                   then Inr (coco_index ex_instance_anns)
                   else if f \<in> {''captions.json'', ''MSCOCO2017/annotations/captions_train2017.json'',
                               ''MSCOCO2017/annotations/captions_val2017.json''}
                   then Inr (coco_index ex_caption_anns)
                   else Inl f),
      unpack = (\<lambda>z. if z = ''train2017.zip''
                     then Inr [(''MSCOCO2017/train2017'', [''000001.jpg'', ''000002.jpg'', ''000003.jpg''])]
                     else if z = ''val2017.zip'' then Inr [(''MSCOCO2017/val2017'', [''000004.jpg''])]
                     else if z = ''annotations_trainval2017.zip'' then Inr [(''MSCOCO2017/annotations'', [])]
                     else Inl z)\<rparr>"

text \<open>A root in which the training split exists, with three files, and nothing else.\<close>

definition ex_files_train :: fs where
  "ex_files_train =
     [''MSCOCO2017/train2017'' \<mapsto>
        [(''MSCOCO2017/train2017'', [''000001.jpg'', ''000002.jpg'', ''000003.jpg''])]]"

text \<open>
  A root in which the training split exists with one file in the directory itself and
  two in a subdirectory.
\<close>

definition ex_files_nested :: fs where
  "ex_files_nested =
     [''MSCOCO2017/train2017'' \<mapsto>
        [(''MSCOCO2017/train2017'', [''000001.jpg'']),
         (''MSCOCO2017/train2017/extra'', [''000002.jpg'', ''000003.jpg''])]]"

definition ex_files :: fs where
  "ex_files = [''val2017'' \<mapsto> [(''val2017'', [''000002.jpg'', ''000001.jpg'', ''notes.txt''])]]"

section \<open>Properties of the joined sample\<close>

lemma append_instances_bbox:
  "append_instances ds d anns = Inr d' \<Longrightarrow> bbox d = Some bs \<Longrightarrow>
     \<exists>ts. list_all2 (\<lambda>ann t. bbox_entry ann = Inr t) anns ts \<and> bbox d' = Some (bs @ ts)"
proof (induction anns arbitrary: d bs)
  case Nil
  then show ?case by simp
next
  case (Cons ann anns)
  from Cons.prems obtain t where t: "bbox_entry ann = Inr t"
    by (auto split: sum.splits)
  let ?d1 = "d\<lparr>bbox := Some (bs @ [t])\<rparr>"
  from Cons.prems t obtain d2 where d2: "append_instances ds d2 anns = Inr d'" "bbox d2 = Some (bs @ [t])"
    by (auto simp: Let_def split: sum.splits option.splits if_splits)
  from Cons.IH[OF d2] obtain ts where "list_all2 (\<lambda>ann t. bbox_entry ann = Inr t) anns ts" "bbox d' = Some ((bs @ [t]) @ ts)"
    by blast
  with t show ?case
    by (intro exI[of _ "t # ts"]) simp
qed

lemma append_instances_mask:
  "append_instances ds d anns = Inr d' \<Longrightarrow> include_masks ds \<Longrightarrow> mask d = Some ms \<Longrightarrow>
     \<exists>ms'. list_all2 (\<lambda>ann m. annToMask (instances ds) ann = Inr m) anns ms' \<and> mask d' = Some (ms @ ms')"
proof (induction anns arbitrary: d ms)
  case Nil
  then show ?case by simp
next
  case (Cons ann anns)
  from Cons.prems obtain m d2 where m: "annToMask (instances ds) ann = Inr m"
    and d2: "append_instances ds d2 anns = Inr d'" "mask d2 = Some (ms @ [m])"
    by (auto simp: Let_def split: sum.splits option.splits if_splits)
  from Cons.IH[OF d2(1) Cons.prems(2) d2(2)] obtain ms' where
    "list_all2 (\<lambda>ann m. annToMask (instances ds) ann = Inr m) anns ms'" "mask d' = Some ((ms @ [m]) @ ms')"
    by blast
  with m show ?case
    by (intro exI[of _ "m # ms'"]) simp
qed

lemma append_instances_frame:
  "append_instances ds d anns = Inr d' \<Longrightarrow>
     image d' = image d \<and> image_id d' = image_id d \<and> caption d' = caption d \<and>
     (\<not> include_masks ds \<longrightarrow> mask d' = mask d)"
proof (induction anns arbitrary: d)
  case Nil
  then show ?case by simp
next
  case (Cons ann anns)
  from Cons.prems obtain d2 where d2: "append_instances ds d2 anns = Inr d'"
    and fr: "image d2 = image d" "image_id d2 = image_id d" "caption d2 = caption d"
       "\<not> include_masks ds \<longrightarrow> mask d2 = mask d"
    by (auto simp: Let_def split: sum.splits option.splits if_splits)
  from Cons.IH[OF d2] fr show ?case by simp
qed

lemma populate_instance_data_Inr:
  assumes "populate_instance_data ds d img = Inr d'"
  shows "\<exists>ts. list_all2 (\<lambda>ann t. bbox_entry ann = Inr t) (noncrowd_annotations ds img) ts \<and>
            bbox d' = Some ts"
    and "include_masks ds \<Longrightarrow>
           \<exists>ms. list_all2 (\<lambda>ann m. annToMask (instances ds) ann = Inr m) (noncrowd_annotations ds img) ms \<and>
                mask d' = Some ms"
    and "image d' = image d" and "image_id d' = image_id d" and "caption d' = caption d"
    and "\<not> include_masks ds \<Longrightarrow> mask d' = mask d"
proof -
  let ?d1 = "d\<lparr>bbox := Some []\<rparr>"
  let ?d2 = "if include_masks ds then ?d1\<lparr>mask := Some []\<rparr> else ?d1"
  have run: "append_instances ds ?d2 (noncrowd_annotations ds img) = Inr d'"
    using assms by (simp add: populate_instance_data_def noncrowd_annotations_def Let_def split: if_splits)
  have b: "bbox ?d2 = Some []" by simp
  from append_instances_bbox[OF run b]
  show "\<exists>ts. list_all2 (\<lambda>ann t. bbox_entry ann = Inr t) (noncrowd_annotations ds img) ts \<and> bbox d' = Some ts"
    by simp
  from append_instances_frame[OF run]
  show "image d' = image d" "image_id d' = image_id d" "caption d' = caption d"
    by (simp_all split: if_splits)
  from append_instances_frame[OF run]
  show "\<not> include_masks ds \<Longrightarrow> mask d' = mask d" by simp
  show "\<exists>ms. list_all2 (\<lambda>ann m. annToMask (instances ds) ann = Inr m) (noncrowd_annotations ds img) ms \<and>
                mask d' = Some ms" if m: "include_masks ds"
  proof -
    have "mask ?d2 = Some []" using m by simp
    from append_instances_mask[OF run m this] show ?thesis by simp
  qed
qed

lemma append_captions_Inr:
  "append_captions d anns = Inr d' \<Longrightarrow> caption d = Some cs \<Longrightarrow>
     (\<exists>ts. list_all2 (\<lambda>ann c. ann ''caption'' = Some c) anns ts \<and> caption d' = Some (cs @ ts)) \<and>
     image d' = image d \<and> image_id d' = image_id d \<and> bbox d' = bbox d \<and> mask d' = mask d"
proof (induction anns arbitrary: d cs)
  case Nil
  then show ?case by simp
next
  case (Cons ann anns)
  from Cons.prems obtain c where c: "ann ''caption'' = Some c"
    and run: "append_captions (d\<lparr>caption := Some (cs @ [c])\<rparr>) anns = Inr d'"
    by (auto split: option.splits)
  have "caption (d\<lparr>caption := Some (cs @ [c])\<rparr>) = Some (cs @ [c])" by simp
  from Cons.IH[OF run this] obtain ts where
    "list_all2 (\<lambda>ann c. ann ''caption'' = Some c) anns ts" "caption d' = Some ((cs @ [c]) @ ts)"
    "image d' = image d" "image_id d' = image_id d" "bbox d' = bbox d" "mask d' = mask d"
    by auto
  with c show ?case
    by (intro conjI exI[of _ "c # ts"]) simp_all
qed

lemma populate_caption_data_Inr:
  assumes "populate_caption_data cap d img = Inr d'"
  shows "\<exists>ts. list_all2 (\<lambda>ann c. ann ''caption'' = Some c) (caption_annotations cap img) ts \<and>
            caption d' = Some ts"
    and "image d' = image d" and "image_id d' = image_id d" and "bbox d' = bbox d" and "mask d' = mask d"
proof -
  have run: "append_captions (d\<lparr>caption := Some []\<rparr>) (caption_annotations cap img) = Inr d'"
    using assms by (simp add: populate_caption_data_def caption_annotations_def Let_def split: if_splits)
  have "caption (d\<lparr>caption := Some []\<rparr>) = Some []" by simp
  from append_captions_Inr[OF run this]
  show "\<exists>ts. list_all2 (\<lambda>ann c. ann ''caption'' = Some c) (caption_annotations cap img) ts \<and> caption d' = Some ts"
    and "image d' = image d" and "image_id d' = image_id d" and "bbox d' = bbox d" and "mask d' = mask d"
    by simp_all
qed


lemma join_annotations_Inr:
  assumes "join_annotations ds r = Inr r'"
  shows "\<exists>p n. image r = Some p \<and> py_int (image_stem p) = Some n \<and>
               image r' = Some p \<and> image_id r' = Some n"
    and "include_bboxes ds \<Longrightarrow> image_id r' = Some n \<Longrightarrow>
           \<exists>ts. list_all2 (\<lambda>ann t. bbox_entry ann = Inr t) (noncrowd_annotations ds n) ts \<and>
                bbox r' = Some ts"
    and "include_bboxes ds \<Longrightarrow> include_masks ds \<Longrightarrow> image_id r' = Some n \<Longrightarrow>
           \<exists>ms. list_all2 (\<lambda>ann m. annToMask (instances ds) ann = Inr m) (noncrowd_annotations ds n) ms \<and>
                mask r' = Some ms"
    and "captions ds = Some cap \<Longrightarrow> image_id r' = Some n \<Longrightarrow>
           \<exists>cs. list_all2 (\<lambda>ann c. ann ''caption'' = Some c) (caption_annotations cap n) cs \<and>
                caption r' = Some cs"
proof -
  from assms obtain p k where p: "image r = Some p" and k: "py_int (image_stem p) = Some k"
    by (auto simp: join_annotations_def split: option.splits)
  let ?r0 = "r\<lparr>image_id := Some k\<rparr>"
  from assms p k obtain r1 where
    r1: "(if include_bboxes ds then populate_instance_data ds ?r0 k else Inr ?r0) = Inr r1"
    and r': "(case captions ds of None \<Rightarrow> Inr r1 | Some cap \<Rightarrow> populate_caption_data cap r1 k) = Inr r'"
    by (auto simp: join_annotations_def split: sum.splits)
  have r1_fr: "image r1 = Some p" "image_id r1 = Some k"
    using r1 p populate_instance_data_Inr(3,4)[of ds ?r0 k r1] by (auto split: if_splits)
  have r'_fr: "image r' = Some p" "image_id r' = Some k" "bbox r' = bbox r1" "mask r' = mask r1"
    using r' r1_fr populate_caption_data_Inr(2,3,4,5)[of _ r1 k r'] by (auto split: option.splits)
  show "\<exists>p n. image r = Some p \<and> py_int (image_stem p) = Some n \<and> image r' = Some p \<and> image_id r' = Some n"
    using p k r'_fr by simp
  show "\<exists>ts. list_all2 (\<lambda>ann t. bbox_entry ann = Inr t) (noncrowd_annotations ds n) ts \<and> bbox r' = Some ts"
    if "include_bboxes ds" "image_id r' = Some n"
    using that r1 r'_fr populate_instance_data_Inr(1)[of ds ?r0 k r1] by auto
  show "\<exists>ms. list_all2 (\<lambda>ann m. annToMask (instances ds) ann = Inr m) (noncrowd_annotations ds n) ms \<and> mask r' = Some ms"
    if "include_bboxes ds" "include_masks ds" "image_id r' = Some n"
    using that r1 r'_fr populate_instance_data_Inr(2)[of ds ?r0 k r1] by auto
  show "\<exists>cs. list_all2 (\<lambda>ann c. ann ''caption'' = Some c) (caption_annotations cap n) cs \<and> caption r' = Some cs"
    if "captions ds = Some cap" "image_id r' = Some n"
    using that r' r'_fr populate_caption_data_Inr(1)[of cap r1 k r'] by auto
qed

lemma get_single_item_IntIdx:
  assumes "get_single_item ds h (IntIdx i) = (Inr a, h')"
  shows "0 \<le> i \<and> i < int (len ds) \<and> a = length h \<and>
         (\<exists>r. join_annotations ds (h ! (data ds ! nat i)) = Inr r \<and> h' = h @ [r])"
  using assms
  by (auto simp: get_single_item_def base_getitem_def deepcopy_def len_def nth_append
      split: sum.splits if_splits)

lemma get_single_item_StrKey:
  "get_single_item ds h (StrKey k) =
     (case by_key ds k h of
        Unknown \<Rightarrow> (Inl (KeyError k), h)
      | Stored a \<Rightarrow> (Inr a, h)
      | Fresh v \<Rightarrow> (Inr (length h), h @ [v]))"
  by (simp add: get_single_item_def base_getitem_def split: key_result.splits)

lemma get_single_item_IntIdx_eq:
  assumes "0 \<le> i" and "i < int (len ds)"
  shows "get_single_item ds h (IntIdx i) =
           (case join_annotations ds (h ! (data ds ! nat i)) of
              Inl e \<Rightarrow> (Inl e, h @ [h ! (data ds ! nat i)])
            | Inr r \<Rightarrow> (Inr (length h), h @ [r]))"
  using assms
  by (simp add: get_single_item_def base_getitem_def deepcopy_def len_def split: sum.splits)

lemma get_single_item_prefix:
  "get_single_item ds h index = (res, h') \<Longrightarrow> prefix h h'"
  by (auto simp: get_single_item_def base_getitem_def deepcopy_def
      split: sum.splits index.splits key_result.splits if_splits)

lemma prefix_nth: "prefix h h' \<Longrightarrow> b < length h \<Longrightarrow> h' ! b = h ! b"
  by (auto simp: prefix_def nth_append)

lemma randint_Inr:
  "0 < n \<Longrightarrow> randint n rnd = Inr (shd rnd mod n, stl rnd)"
  by (simp add: randint_def)

lemma randint_Inl: "randint 0 rnd = Inl RandintError"
  by (simp add: randint_def)

lemma getitem_fetch_error:
  "get_single_item ds h index = (Inl e, h1) \<Longrightarrow> getitem ds rnd h index = Some (Inl e, h1)"
  by (subst getitem.simps) simp

lemma getitem_check_error:
  "get_single_item ds h index = (Inr a, h1) \<Longrightarrow> has_data ds (h1 ! a) = Inl e \<Longrightarrow>
     getitem ds rnd h index = Some (Inl e, h1)"
  by (subst getitem.simps) simp

lemma getitem_empty:
  "get_single_item ds h index = (Inr a, h1) \<Longrightarrow> has_data ds (h1 ! a) = Inr found \<Longrightarrow> len ds = 0 \<Longrightarrow>
     getitem ds rnd h index = Some (Inl RandintError, h1)"
  by (subst getitem.simps) (simp add: randint_Inl)

lemma getitem_found:
  "get_single_item ds h index = (Inr a, h1) \<Longrightarrow> has_data ds (h1 ! a) = Inr True \<Longrightarrow> 0 < len ds \<Longrightarrow>
     getitem ds rnd h index = Some (Inr a, h1)"
  by (subst getitem.simps) (simp add: randint_Inr)

lemma getitem_retry:
  "get_single_item ds h index = (Inr a, h1) \<Longrightarrow> has_data ds (h1 ! a) = Inr False \<Longrightarrow> 0 < len ds \<Longrightarrow>
     getitem ds rnd h index = getitem ds (stl rnd) h1 (IntIdx (int (shd rnd mod len ds)))"
  by (subst getitem.simps) (simp add: randint_Inr)

lemma getitem_induct [consumes 1, case_names fetch_error check_error empty found retry]:
  assumes run: "getitem ds rnd h index = Some y"
    and fetch_error: "\<And>rnd h index e h1.
           get_single_item ds h index = (Inl e, h1) \<Longrightarrow> P rnd h index (Inl e, h1)"
    and check_error: "\<And>rnd h index a h1 e.
           get_single_item ds h index = (Inr a, h1) \<Longrightarrow> has_data ds (h1 ! a) = Inl e \<Longrightarrow>
           P rnd h index (Inl e, h1)"
    and empty: "\<And>rnd h index a h1 found.
           get_single_item ds h index = (Inr a, h1) \<Longrightarrow> has_data ds (h1 ! a) = Inr found \<Longrightarrow>
           len ds = 0 \<Longrightarrow> P rnd h index (Inl RandintError, h1)"
    and found: "\<And>rnd h index a h1.
           get_single_item ds h index = (Inr a, h1) \<Longrightarrow> has_data ds (h1 ! a) = Inr True \<Longrightarrow>
           0 < len ds \<Longrightarrow> P rnd h index (Inr a, h1)"
    and retry: "\<And>rnd h index a h1 y.
           get_single_item ds h index = (Inr a, h1) \<Longrightarrow> has_data ds (h1 ! a) = Inr False \<Longrightarrow>
           0 < len ds \<Longrightarrow>
           P (stl rnd) h1 (IntIdx (int (shd rnd mod len ds))) y \<Longrightarrow> P rnd h index y"
  shows "P rnd h index y"
proof -
  have "ds' = ds \<longrightarrow> P rnd h index y" if "getitem ds' rnd h index = Some y" for ds'
    using that
  proof (induction rule: getitem.raw_induct[rotated 1, consumes 1])
    case (1 rec ds' rnd h index y)
    show ?case
    proof
      assume eq: "ds' = ds"
      obtain r1 h1 where g: "get_single_item ds h index = (r1, h1)"
        by (cases "get_single_item ds h index")
      note body = 1(2)[unfolded eq g prod.case]
      show "P rnd h index y"
      proof (cases r1)
        case (Inl e)
        with body have "y = (Inl e, h1)" by simp
        with fetch_error[OF g[unfolded Inl]] show ?thesis by simp
      next
        case (Inr a)
        note body = body[unfolded Inr sum.case]
        note g = g[unfolded Inr]
        show ?thesis
        proof (cases "has_data ds (h1 ! a)")
          case (Inl e)
          with body have "y = (Inl e, h1)" by simp
          with check_error[OF g Inl] show ?thesis by simp
        next
          case hd: (Inr b)
          note body = body[unfolded hd sum.case]
          show ?thesis
          proof (cases "len ds = 0")
            case True
            with body have "y = (Inl RandintError, h1)" by (simp add: randint_Inl)
            with empty[OF g hd True] show ?thesis by simp
          next
            case False
            then have pos: "0 < len ds" by simp
            note body = body[unfolded randint_Inr[OF pos] sum.case prod.case]
            show ?thesis
            proof (cases b)
              case True
              with body have y: "y = (Inr a, h1)" by simp
              from hd True have "has_data ds (h1 ! a) = Inr True" by simp
              from found[OF g this pos] y show ?thesis by simp
            next
              case False
              with body have r: "rec ds (stl rnd) h1 (IntIdx (int (shd rnd mod len ds))) = Some y"
                by simp
              from 1(1)[OF r] have ih: "P (stl rnd) h1 (IntIdx (int (shd rnd mod len ds))) y" by simp
              from hd False have "has_data ds (h1 ! a) = Inr False" by simp
              from retry[OF g this pos ih] show ?thesis .
            qed
          qed
        qed
      qed
    qed
  qed
  with run show ?thesis by blast
qed


lemma has_data_TrueD:
  assumes "has_data ds r = Inr True"
  shows "include_bboxes ds \<Longrightarrow> \<exists>bs. bbox r = Some bs \<and> bs \<noteq> []"
    and "include_masks ds \<Longrightarrow> \<exists>ms. mask r = Some ms \<and> ms \<noteq> []"
    and "captions ds \<noteq> None \<Longrightarrow> \<exists>cs. caption r = Some cs \<and> cs \<noteq> []"
  using assms by (auto simp: has_data_def split: if_splits option.splits sum.splits)

lemma has_data_KeyError:
  "has_data ds r = Inl e \<Longrightarrow> e \<in> {KeyError ''bbox'', KeyError ''mask'', KeyError ''caption''}"
  by (auto simp: has_data_def split: if_splits option.splits sum.splits)

lemma getitem_has_data_aux:
  "getitem ds rnd h index = Some y \<Longrightarrow> \<forall>a. fst y = Inr a \<longrightarrow> has_data ds (snd y ! a) = Inr True"
  by (induction rule: getitem_induct) simp_all

lemma getitem_has_data:
  "getitem ds rnd h index = Some (Inr a, h') \<Longrightarrow> has_data ds (h' ! a) = Inr True"
  using getitem_has_data_aux[of ds rnd h index "(Inr a, h')"] by simp

lemma getitem_IntIdx_fetch_aux:
  "getitem ds rnd h index = Some y \<Longrightarrow>
     \<forall>i a. index = IntIdx i \<and> fst y = Inr a \<longrightarrow>
       (\<exists>h0 j. get_single_item ds h0 (IntIdx j) = (Inr a, snd y))"
  by (induction rule: getitem_induct) auto

lemma getitem_IntIdx_fetch:
  "getitem ds rnd h (IntIdx i) = Some (Inr a, h') \<Longrightarrow>
     \<exists>h0 j. get_single_item ds h0 (IntIdx j) = (Inr a, h')"
  using getitem_IntIdx_fetch_aux[of ds rnd h "IntIdx i" "(Inr a, h')"] by simp

lemma init_flags:
  assumes "MSCOCODataset_init env files h image_dir annotation_file caption_file
             load_bboxes load_masks load_captions = (Inr ds, h1, opened)"
  shows "include_bboxes ds = load_bboxes" and "include_masks ds = load_masks"
    and "(captions ds \<noteq> None) = load_captions" and "load_masks \<longrightarrow> load_bboxes"
  using assms
  by (auto simp: MSCOCODataset_init_def split: prod.splits sum.splits if_splits)

subsection \<open>Evaluation of the example\<close>

lemma ex_len: "len (ex_ds records load_bboxes load_masks load_captions) = length records"
  by (simp add: len_def ex_ds_def)

lemma ex_fetch_0:
  "get_single_item (ex_ds [0, 1, 2] True True True) ex_heap (IntIdx 0) =
     (Inr 3, ex_heap @ [ex_sample_2])"
  by code_simp

lemma ex_fetch_1:
  "get_single_item (ex_ds [0, 1, 2] True True True) (ex_heap @ [ex_sample_2]) (IntIdx 1) =
     (Inr 4, ex_heap @ [ex_sample_2, ex_sample_1])"
  by code_simp

lemma ex_access_0:
  "getitem (ex_ds [0, 1, 2] True True True) (1 ## sconst 0) ex_heap (IntIdx 0) =
     Some (Inr 4, ex_heap @ [ex_sample_2, ex_sample_1])"
proof -
  let ?ds = "ex_ds [0, 1, 2] True True True"
  have c0: "has_data ?ds ((ex_heap @ [ex_sample_2]) ! 3) = Inr False" by code_simp
  have pos: "0 < len ?ds" by (simp add: ex_len)
  have "getitem ?ds (1 ## sconst 0) ex_heap (IntIdx 0) =
          getitem ?ds (stl (1 ## sconst 0)) (ex_heap @ [ex_sample_2])
            (IntIdx (int (shd (1 ## sconst 0) mod len ?ds)))"
    by (rule getitem_retry[OF ex_fetch_0 c0 pos])
  also have "\<dots> = getitem ?ds (sconst 0) (ex_heap @ [ex_sample_2]) (IntIdx 1)"
    by (simp add: ex_len)
  also have "\<dots> = Some (Inr 4, ex_heap @ [ex_sample_2, ex_sample_1])"
    by (rule getitem_found[OF ex_fetch_1]) (code_simp, simp add: ex_len)
  finally show ?thesis .
qed

lemma ex_heap_4: "(ex_heap @ [ex_sample_2, ex_sample_1]) ! 4 = ex_sample_1"
  by (simp add: ex_heap_def)

lemma ex_init:
  "MSCOCODataset_init ex_env ex_files [] ''val2017'' ''instances.json'' ''captions.json''
       load_bboxes load_masks load_captions =
     (if load_masks \<and> \<not> load_bboxes
      then (Inl (AssertionError ''must include bboxes with mask data''), ex_heap, [])
      else (Inr (ex_ds [0, 1, 2] load_bboxes load_masks load_captions), ex_heap,
            if load_captions then [''instances.json'', ''captions.json''] else [''instances.json'']))"
  by (simp add: MSCOCODataset_init_def ex_env_def ex_files_def ex_ds_def ex_heap_def top_files_def
      os_path_join_def)



lemma bbox_entry_Inr:
  "bbox_entry ann = Inr t \<longleftrightarrow>
     (\<exists>l c. ann ''bbox'' = Some (JList l) \<and> ann ''category_id'' = Some c \<and> t = l @ [c])"
  by (auto simp: bbox_entry_def split: option.splits json.splits)

lemma bbox_entry_Inl: "bbox_entry ann = Inl e \<Longrightarrow> e \<noteq> ParseError s"
  by (auto simp: bbox_entry_def split: option.splits json.splits)

lemma append_instances_Inl:
  "append_instances ds d anns = Inl e \<Longrightarrow> e \<noteq> ParseError s"
proof (induction anns arbitrary: d)
  case Nil
  then show ?case by simp
next
  case (Cons ann anns)
  show ?case
  proof (cases "bbox d")
    case None
    with Cons.prems show ?thesis by auto
  next
    case (Some bs)
    show ?thesis
    proof (cases "bbox_entry ann")
      case (Inl e')
      with Cons.prems Some bbox_entry_Inl[OF Inl] show ?thesis by auto
    next
      case (Inr t)
      with Cons.prems Some Cons.IH show ?thesis
        by (auto simp: Let_def split: if_splits option.splits sum.splits)
    qed
  qed
qed

lemma append_captions_Inl:
  "append_captions d anns = Inl e \<Longrightarrow> e \<noteq> ParseError s"
  by (induction anns arbitrary: d) (auto split: option.splits)

lemma join_annotations_no_parse_error:
  assumes "image r = Some p" and "py_int (image_stem p) = Some n"
  shows "join_annotations ds r \<noteq> Inl (ParseError s)"
proof
  assume e: "join_annotations ds r = Inl (ParseError s)"
  let ?r0 = "r\<lparr>image_id := Some n\<rparr>"
  show False
  proof (cases "if include_bboxes ds then populate_instance_data ds ?r0 n else Inr ?r0")
    case (Inl e')
    then have "e' \<noteq> ParseError s"
      by (auto simp: populate_instance_data_def Let_def dest: append_instances_Inl split: if_splits)
    with e assms Inl show False by (simp add: join_annotations_def)
  next
    case (Inr r1)
    with e assms show False
      by (auto simp: join_annotations_def populate_caption_data_def Let_def
          dest: append_captions_Inl split: option.splits if_splits)
  qed
qed

lemma has_data_joined:
  assumes "join_annotations ds r0 = Inr r" and "include_masks ds \<longrightarrow> include_bboxes ds"
  shows "\<exists>b. has_data ds r = Inr b"
proof -
  from join_annotations_Inr(1)[OF assms(1)] obtain n where n: "image_id r = Some n" by blast
  have b: "include_bboxes ds \<Longrightarrow> \<exists>ts. bbox r = Some ts"
    using join_annotations_Inr(2)[OF assms(1) _ n] by blast
  have m: "include_masks ds \<Longrightarrow> \<exists>ms. mask r = Some ms"
    using join_annotations_Inr(3)[OF assms(1) _ _ n] assms(2) by blast
  have c: "captions ds \<noteq> None \<Longrightarrow> \<exists>cs. caption r = Some cs"
    using join_annotations_Inr(4)[OF assms(1) _ n] by blast
  show ?thesis
    using b m c by (cases "include_bboxes ds"; cases "include_masks ds"; cases "captions ds = None")
      (auto simp: has_data_def)
qed

lemma ex_fetch_boxes_0:
  "get_single_item (ex_ds [0, 2] True False False) ex_heap (IntIdx 0) =
     (Inr 3, ex_heap @ [ex_sample_2_boxes])"
  by code_simp

lemma ex_fetch_boxes_1:
  "get_single_item (ex_ds [0, 2] True False False) (ex_heap @ [ex_sample_2_boxes]) (IntIdx 1) =
     (Inl (ParseError ''notes''), ex_heap @ [ex_sample_2_boxes, ex_record ''val2017/notes.txt''])"
  by code_simp

lemma ex_incomplete_boxes:
  "has_data (ex_ds records True False False) ex_sample_2_boxes = Inr False"
  by (simp add: has_data_def ex_ds_def ex_sample_2_boxes_def)

lemma ex_access_boxes_0:
  "getitem (ex_ds [0, 2] True False False) (sconst 1) ex_heap (IntIdx 0) =
     Some (Inl (ParseError ''notes''),
           ex_heap @ [ex_sample_2_boxes, ex_record ''val2017/notes.txt''])"
proof -
  let ?ds = "ex_ds [0, 2] True False False"
  have at: "(ex_heap @ [ex_sample_2_boxes]) ! 3 = ex_sample_2_boxes" by (simp add: ex_heap_def)
  have c0: "has_data ?ds ((ex_heap @ [ex_sample_2_boxes]) ! 3) = Inr False"
    unfolding at by (rule ex_incomplete_boxes)
  have pos: "0 < len ?ds" by (simp add: ex_len)
  have "getitem ?ds (sconst 1) ex_heap (IntIdx 0) =
          getitem ?ds (stl (sconst 1)) (ex_heap @ [ex_sample_2_boxes])
            (IntIdx (int (shd (sconst 1) mod len ?ds)))"
    by (rule getitem_retry[OF ex_fetch_boxes_0 c0 pos])
  also have "\<dots> = getitem ?ds (sconst 1) (ex_heap @ [ex_sample_2_boxes]) (IntIdx 1)"
    by (simp add: ex_len)
  also have "\<dots> = Some (Inl (ParseError ''notes''),
           ex_heap @ [ex_sample_2_boxes, ex_record ''val2017/notes.txt''])"
    by (rule getitem_fetch_error[OF ex_fetch_boxes_1])
  finally show ?thesis .
qed

lemma init_base:
  assumes "MSCOCODataset_init env files h image_dir annotation_file caption_file
             load_bboxes load_masks load_captions = (Inr ds, h1, opened)"
  shows "\<exists>b. DirDataset env (files image_dir) h = (Inr b, h1) \<and> data ds = data b \<and>
             by_key ds = by_key b"
  using assms
  by (auto simp: MSCOCODataset_init_def split: prod.splits sum.splits if_splits)






subsection \<open>Subsampling\<close>

lemma subsample_files_eq:
  "subsample_files n c fs =
     (if c < n then min n (c + int (length fs)) else c, take (nat (n - c)) fs)"
proof (induction fs arbitrary: c)
  case Nil
  then show ?case by simp
next
  case (Cons f fs)
  show ?case
  proof (cases "c < n")
    case True
    then have "nat (n - c) = Suc (nat (n - (c + 1)))" by simp
    then have "take (nat (n - c)) (f # fs) = f # take (nat (n - (c + 1))) fs"
      by simp
    with True Cons.IH[of "c + 1"] show ?thesis by (auto simp: min_def)
  next
    case False
    with Cons.IH[of c] show ?thesis by simp
  qed
qed

lemma files_of_Cons:
  "files_of ((d, fs) # w) = map (os_path_join d) fs @ files_of w"
  by (simp add: files_of_def)

lemma files_of_subsample_walk:
  "files_of (subsample_walk n c w) = take (nat (n - c)) (files_of w)"
proof (induction w arbitrary: c)
  case Nil
  then show ?case by (simp add: files_of_def)
next
  case (Cons e w)
  obtain d fs where e: "e = (d, fs)" by (cases e)
  let ?c = "if c < n then min n (c + int (length fs)) else c"
  have "nat (n - ?c) = nat (n - c) - length fs" by (auto simp: min_def)
  with Cons.IH[of ?c] show ?case
    by (simp add: e subsample_files_eq files_of_Cons take_map)
qed

lemma data_subsample_apply:
  "data_subsample files d n d' =
     (if d' = d then map_option (subsample_walk n 0) (files d) else files d')"
  by (simp add: data_subsample_def split: option.splits)

lemma extract_missing_lookup:
  assumes "extract_missing env files l = (Inr u, files')" and "distinct (map fst l)"
    and "(d, z) \<in> set l"
  shows "files' d = (case files d of
                       Some w \<Rightarrow> Some w
                     | None \<Rightarrow> (case unpack env z of Inl m \<Rightarrow> None | Inr w \<Rightarrow> Some w))"
    and "files d = None \<Longrightarrow> \<exists>w. unpack env z = Inr w"
proof -
  have keep: "snd (extract_missing ev fs l) d = fs d" if "d \<notin> fst ` set l" for ev fs l
    using that by (induction ev fs l rule: extract_missing.induct) (auto split: option.splits sum.splits)
  have "files' d = (case files d of
                       Some w \<Rightarrow> Some w
                     | None \<Rightarrow> (case unpack env z of Inl m \<Rightarrow> None | Inr w \<Rightarrow> Some w)) \<and>
        (files d = None \<longrightarrow> (\<exists>w. unpack env z = Inr w))"
    using assms
  proof (induction env files l rule: extract_missing.induct)
    case (1 env files)
    then show ?case by simp
  next
    case (2 env files data_dir zip_name rest)
    show ?case
    proof (cases "(d, z) = (data_dir, zip_name)")
      case True
      then have notin: "d \<notin> fst ` set rest" using "2.prems"(2) by auto
      show ?thesis
      proof (cases "files data_dir")
        case (Some w)
        with "2.prems"(1) have "extract_missing env files rest = (Inr u, files')" by simp
        then have e: "files' = snd (extract_missing env files rest)" by simp
        have "files' d = files d" unfolding e by (rule keep[OF notin])
        with Some True show ?thesis by simp
      next
        case None
        with "2.prems"(1) obtain w where w: "unpack env zip_name = Inr w"
          and r: "extract_missing env (files(data_dir \<mapsto> w)) rest = (Inr u, files')"
          by (auto split: sum.splits)
        from r have e: "files' = snd (extract_missing env (files(data_dir \<mapsto> w)) rest)" by simp
        have "files' d = (files(data_dir \<mapsto> w)) d" unfolding e by (rule keep[OF notin])
        with None True w show ?thesis by simp
      qed
    next
      case False
      with "2.prems"(3) have mem: "(d, z) \<in> set rest" by auto
      with "2.prems"(2) have ne: "d \<noteq> data_dir" by (auto simp: image_iff)
      from "2.prems"(2) have dist: "distinct (map fst rest)" by simp
      show ?thesis
      proof (cases "files data_dir")
        case (Some w)
        with "2.prems"(1) have "extract_missing env files rest = (Inr u, files')" by simp
        from "2.IH"(2)[OF Some this dist mem] show ?thesis .
      next
        case None
        with "2.prems"(1) obtain w where w: "unpack env zip_name = Inr w"
          and r: "extract_missing env (files(data_dir \<mapsto> w)) rest = (Inr u, files')"
          by (auto split: sum.splits)
        from "2.IH"(1)[OF None w r dist mem] ne show ?thesis by simp
      qed
    qed
  qed
  then show "files' d = (case files d of
                       Some w \<Rightarrow> Some w
                     | None \<Rightarrow> (case unpack env z of Inl m \<Rightarrow> None | Inr w \<Rightarrow> Some w))"
    and "files d = None \<Longrightarrow> \<exists>w. unpack env z = Inr w"
    by simp_all
qed

lemma split_dirs_distinct:
  "distinct [os_path_join r ''train2017'', os_path_join r ''val2017'', os_path_join r ''annotations'']"
  by (simp add: os_path_join_def)

lemma load_data_Inr:
  assumes "load_data env files h root_dir sample_num load_bboxes load_masks load_captions =
             (Inr (train_ds, eval_ds), files', h')"
  shows "\<exists>u files3 h1 o1 o2.
           extract_missing env
             (data_subsample (data_subsample files (os_path_join root_dir ''train2017'') sample_num)
                (os_path_join root_dir ''val2017'') sample_num)
             [(os_path_join root_dir ''train2017'', ''train2017.zip''),
              (os_path_join root_dir ''val2017'', ''val2017.zip''),
              (os_path_join root_dir ''annotations'', ''annotations_trainval2017.zip'')] =
             (Inr u, files3) \<and>
           MSCOCODataset_init env files3 h (os_path_join root_dir ''train2017'')
             (os_path_join (os_path_join root_dir ''annotations'') ''instances_train2017.json'')
             (os_path_join (os_path_join root_dir ''annotations'') ''captions_train2017.json'')
             load_bboxes load_masks load_captions = (Inr train_ds, h1, o1) \<and>
           MSCOCODataset_init env files3 h1 (os_path_join root_dir ''val2017'')
             (os_path_join (os_path_join root_dir ''annotations'') ''instances_val2017.json'')
             (os_path_join (os_path_join root_dir ''annotations'') ''captions_val2017.json'')
             load_bboxes load_masks load_captions = (Inr eval_ds, h', o2)"
  using assms
  by (simp add: load_data_def Let_def split: prod.splits sum.splits)

lemma top_files_subsample_walk:
  "top_files (subsample_walk n 0 w) = take (nat n) (top_files w)"
proof (cases w)
  case Nil
  then show ?thesis by (simp add: top_files_def)
next
  case (Cons e rest)
  obtain d fs where e: "e = (d, fs)" by (cases e)
  show ?thesis
    by (simp add: Cons e top_files_def subsample_files_eq take_map)
qed

lemma files_of_flat: "tl w = [] \<Longrightarrow> files_of w = top_files w"
  by (cases w) (auto simp: files_of_def top_files_def)

lemma split_built:
  assumes ex: "extract_missing env files2 l = (Inr u, files3)" and dist: "distinct (map fst l)"
    and mem: "(d, z) \<in> set l"
    and init: "MSCOCODataset_init env files3 hx d annotation_file caption_file
                 load_bboxes load_masks load_captions = (Inr ds, hy, opened)"
  shows "(\<forall>w. files2 d = Some w \<longrightarrow>
            (\<exists>b. DirDataset env (Some w) hx = (Inr b, hy) \<and> data ds = data b)) \<and>
         (files2 d = None \<longrightarrow>
            (\<exists>w b. unpack env z = Inr w \<and> DirDataset env (Some w) hx = (Inr b, hy) \<and>
                   data ds = data b))"
proof -
  from init_base[OF init] obtain b where
    b: "DirDataset env (files3 d) hx = (Inr b, hy)" and d: "data ds = data b"
    by blast
  note look = extract_missing_lookup[OF ex dist mem]
  show ?thesis
  proof (intro conjI allI impI)
    fix w
    assume "files2 d = Some w"
    with look(1) have "files3 d = Some w" by simp
    with b d show "\<exists>b. DirDataset env (Some w) hx = (Inr b, hy) \<and> data ds = data b" by auto
  next
    assume none: "files2 d = None"
    from look(2)[OF none] obtain w where w: "unpack env z = Inr w" by blast
    with look(1) none have "files3 d = Some w" by simp
    with b d w show "\<exists>w b. unpack env z = Inr w \<and> DirDataset env (Some w) hx = (Inr b, hy) \<and>
                          data ds = data b"
      by auto
  qed
qed

lemma card_mod_class:
  assumes "0 < n" and "j < n"
  shows "card {r :: nat. r < k * n \<and> r mod n = j} = k"
proof -
  have eq: "{r. r < k * n \<and> r mod n = j} = (\<lambda>q. q * n + j) ` {..<k}"
  proof (intro set_eqI iffI)
    fix r
    assume "r \<in> {r. r < k * n \<and> r mod n = j}"
    then have r: "r < k * n" and m: "r mod n = j" by simp_all
    from r assms(1) have "r div n < k"
      by (simp add: less_mult_imp_div_less)
    moreover have "r = (r div n) * n + j" using m by (metis div_mult_mod_eq)
    ultimately show "r \<in> (\<lambda>q. q * n + j) ` {..<k}" by blast
  next
    fix r
    assume "r \<in> (\<lambda>q. q * n + j) ` {..<k}"
    then obtain q where q: "q < k" and r: "r = q * n + j" by blast
    from q have "Suc q \<le> k" by simp
    then have "Suc q * n \<le> k * n" by (rule mult_le_mono1)
    moreover have "q * n + j < Suc q * n" using assms(2) by simp
    ultimately have "r < k * n" using r by simp
    moreover have "r mod n = j" using r assms(2) by simp
    ultimately show "r \<in> {r. r < k * n \<and> r mod n = j}" by simp
  qed
  have "inj_on (\<lambda>q. q * n + j) {..<k}"
    using assms(1) by (auto simp: inj_on_def)
  then show ?thesis unfolding eq by (simp add: card_image)
qed

lemma randint_draw:
  "0 < n \<Longrightarrow> randint n (r ## rnd) = Inr (j, rnd) \<longleftrightarrow> r mod n = j"
  by (simp add: randint_def)

lemma randint_uniform:
  assumes "j < n"
  shows "card {r. r < k * n \<and> randint n (r ## rnd) = Inr (j, rnd)} = k"
proof -
  from assms have pos: "0 < n" by simp
  then have "{r. r < k * n \<and> randint n (r ## rnd) = Inr (j, rnd)} = {r. r < k * n \<and> r mod n = j}"
    by (simp add: randint_draw)
  with card_mod_class[OF pos assms] show ?thesis by simp
qed

section \<open>The claims\<close>

subsection \<open>Completeness of the returned sample\<close>

text \<open>
  C1. For every integer index, the sample that \<^verbatim>\<open>MSCOCODataset.__getitem__\<close> returns is
  complete for the configuration the dataset was constructed with: if bounding boxes
  were requested its \<open>bbox\<close> list is present and not empty, if masks were requested
  its \<open>mask\<close> list is present and not empty, and if captions were requested its
  \<open>caption\<close> list is present and not empty.
\<close>

theorem getitem_complete:
  assumes init: "MSCOCODataset_init env files h0 image_dir annotation_file caption_file
                   load_bboxes load_masks load_captions = (Inr ds, h1, opened)"
    and run: "getitem ds rnd h (IntIdx i) = Some (Inr a, h')"
  shows "(load_bboxes \<longrightarrow> (\<exists>bs. bbox (h' ! a) = Some bs \<and> bs \<noteq> [])) \<and>
         (load_masks \<longrightarrow> (\<exists>ms. mask (h' ! a) = Some ms \<and> ms \<noteq> [])) \<and>
         (load_captions \<longrightarrow> (\<exists>cs. caption (h' ! a) = Some cs \<and> cs \<noteq> []))"
proof -
  note c = getitem_has_data[OF run]
  note f = init_flags[OF init]
  from has_data_TrueD(1)[OF c] f(1)
  have b: "load_bboxes \<longrightarrow> (\<exists>bs. bbox (h' ! a) = Some bs \<and> bs \<noteq> [])" by simp
  from has_data_TrueD(2)[OF c] f(2)
  have m: "load_masks \<longrightarrow> (\<exists>ms. mask (h' ! a) = Some ms \<and> ms \<noteq> [])" by simp
  from has_data_TrueD(3)[OF c] f(3)
  have p: "load_captions \<longrightarrow> (\<exists>cs. caption (h' ! a) = Some cs \<and> cs \<noteq> [])" by simp
  from b m p show ?thesis by simp
qed

theorem getitem_complete_witness:
  "MSCOCODataset_init ex_env ex_files [] ''val2017'' ''instances.json'' ''captions.json''
       True True True =
     (Inr (ex_ds [0, 1, 2] True True True), ex_heap, [''instances.json'', ''captions.json'']) \<and>
   getitem (ex_ds [0, 1, 2] True True True) (1 ## sconst 0) ex_heap (IntIdx 0) =
     Some (Inr 4, ex_heap @ [ex_sample_2, ex_sample_1]) \<and>
   (\<exists>bs. bbox ex_sample_1 = Some bs \<and> bs \<noteq> []) \<and>
   (\<exists>ms. mask ex_sample_1 = Some ms \<and> ms \<noteq> []) \<and>
   (\<exists>cs. caption ex_sample_1 = Some cs \<and> cs \<noteq> [])"
proof -
  have init: "MSCOCODataset_init ex_env ex_files [] ''val2017'' ''instances.json'' ''captions.json''
       True True True =
     (Inr (ex_ds [0, 1, 2] True True True), ex_heap, [''instances.json'', ''captions.json''])"
    by (simp add: ex_init)
  from getitem_complete[OF init ex_access_0] init ex_access_0 show ?thesis
    by (simp add: ex_heap_4)
qed

subsection \<open>String keys\<close>

text \<open>
  C2. The claim: for every string key, indexed access returns right after the base
  dataset's plain retrieval, with no completeness check, so that a known key whose
  record has no annotations yields that record. \<^verbatim>\<open>_get_single_item\<close> does return the
  raw record, but \<^verbatim>\<open>__getitem__\<close> then runs its completeness tests on it: with bounding
  boxes requested (the default) the subscript \<^verbatim>\<open>response["bbox"]\<close> raises, and no
  record is returned.
\<close>

theorem string_key_access_raises:
  "get_single_item (ex_ds [0, 1, 2] True False False) ex_heap (StrKey ''first'') = (Inr 0, ex_heap) \<and>
   bbox (ex_heap ! 0) = None \<and>
   getitem (ex_ds [0, 1, 2] True False False) (sconst 0) ex_heap (StrKey ''first'') =
     Some (Inl (KeyError ''bbox''), ex_heap)"
proof -
  let ?ds = "ex_ds [0, 1, 2] True False False"
  have f: "get_single_item ?ds ex_heap (StrKey ''first'') = (Inr 0, ex_heap)"
    by (simp add: get_single_item_StrKey ex_ds_def ex_by_key_def)
  have c: "has_data ?ds (ex_heap ! 0) = Inl (KeyError ''bbox'')"
    by (simp add: has_data_def ex_ds_def ex_heap_def ex_record_def)
  have b: "bbox (ex_heap ! 0) = None"
    by (simp add: ex_heap_def ex_record_def)
  from f b getitem_check_error[OF f c] show ?thesis by simp
qed

subsection \<open>The retry loop\<close>

text \<open>
  C3. The claim: for every integer index, an incomplete sample makes the loop draw a
  new uniformly random position below the length and restart, until a complete sample
  is found; the loop never terminates with failure and terminates only on success, so
  it does not terminate when no index yields a complete sample. As stated this fails: a fetch of
  the retry can raise, and the error ends the access. Below, position 0 is fetched
  and is incomplete, the loop draws position 1, whose file name has no integer stem,
  and the access ends with the parse error although no position of the dataset yields
  a complete sample.
\<close>

theorem retry_terminates_with_failure:
  "get_single_item (ex_ds [0, 2] True False False) ex_heap (IntIdx 0) =
     (Inr 3, ex_heap @ [ex_sample_2_boxes]) \<and>
   has_data (ex_ds [0, 2] True False False) ex_sample_2_boxes = Inr False \<and>
   get_single_item (ex_ds [0, 2] True False False) (ex_heap @ [ex_sample_2_boxes]) (IntIdx 1) =
     (Inl (ParseError ''notes''), ex_heap @ [ex_sample_2_boxes, ex_record ''val2017/notes.txt'']) \<and>
   getitem (ex_ds [0, 2] True False False) (sconst 1) ex_heap (IntIdx 0) =
     Some (Inl (ParseError ''notes''),
           ex_heap @ [ex_sample_2_boxes, ex_record ''val2017/notes.txt''])"
  using ex_fetch_boxes_0 ex_incomplete_boxes ex_fetch_boxes_1 ex_access_boxes_0 by simp

text \<open>
  C3, amended. On a dataset whose flags satisfy the constructor's assertion, for every
  integer index: a fetch that raises ends the access with that error; a fetched
  sample that is complete is returned; a fetched sample that is incomplete makes the
  loop draw a new uniformly random position below the length and restart from it
  (uniformly: every position below the length is the draw of equally many values of
  the generator). So the access returns a sample only when that sample is complete,
  it fails only with the error of a fetch (incompleteness itself never ends it), and
  it does not terminate when every record of the dataset yields an incomplete sample.
\<close>

theorem getitem_retry_loop:
  assumes inv: "include_masks ds \<longrightarrow> include_bboxes ds"
  shows "(\<forall>h i e h1. get_single_item ds h (IntIdx i) = (Inl e, h1) \<longrightarrow>
            getitem ds rnd h (IntIdx i) = Some (Inl e, h1)) \<and>
         (\<forall>h i a h1. get_single_item ds h (IntIdx i) = (Inr a, h1) \<and>
                      has_data ds (h1 ! a) = Inr True \<longrightarrow>
            getitem ds rnd h (IntIdx i) = Some (Inr a, h1)) \<and>
         (\<forall>h i a h1. get_single_item ds h (IntIdx i) = (Inr a, h1) \<and>
                      has_data ds (h1 ! a) = Inr False \<longrightarrow>
            shd rnd mod len ds < len ds \<and>
            getitem ds rnd h (IntIdx i) =
              getitem ds (stl rnd) h1 (IntIdx (int (shd rnd mod len ds)))) \<and>
         (\<forall>k j. j < len ds \<longrightarrow>
            card {r. r < k * len ds \<and> randint (len ds) (r ## rnd) = Inr (j, rnd)} = k) \<and>
         (\<forall>h i a h'. getitem ds rnd h (IntIdx i) = Some (Inr a, h') \<longrightarrow>
            has_data ds (h' ! a) = Inr True) \<and>
         (\<forall>h i e h'. getitem ds rnd h (IntIdx i) = Some (Inl e, h') \<longrightarrow>
            (\<exists>h0 j. get_single_item ds h0 (IntIdx j) = (Inl e, h'))) \<and>
         (\<forall>h i. (\<forall>b \<in> set (data ds). b < length h \<and>
                    (\<exists>r. join_annotations ds (h ! b) = Inr r \<and> has_data ds r = Inr False)) \<and>
                 0 \<le> i \<and> i < int (len ds) \<longrightarrow>
            getitem ds rnd h (IntIdx i) = None)"
proof (intro conjI allI impI)
  fix h i e h1
  assume "get_single_item ds h (IntIdx i) = (Inl e, h1)"
  then show "getitem ds rnd h (IntIdx i) = Some (Inl e, h1)"
    by (rule getitem_fetch_error)
next
  fix h i a h1
  assume "get_single_item ds h (IntIdx i) = (Inr a, h1) \<and> has_data ds (h1 ! a) = Inr True"
  then have f: "get_single_item ds h (IntIdx i) = (Inr a, h1)"
    and c: "has_data ds (h1 ! a) = Inr True"
    by simp_all
  from get_single_item_IntIdx[OF f] have pos: "0 < len ds" by auto
  show "getitem ds rnd h (IntIdx i) = Some (Inr a, h1)"
    by (rule getitem_found[OF f c pos])
next
  fix h i a h1
  assume "get_single_item ds h (IntIdx i) = (Inr a, h1) \<and> has_data ds (h1 ! a) = Inr False"
  then have f: "get_single_item ds h (IntIdx i) = (Inr a, h1)"
    and c: "has_data ds (h1 ! a) = Inr False"
    by simp_all
  from get_single_item_IntIdx[OF f] have pos: "0 < len ds" by auto
  then show "shd rnd mod len ds < len ds" by simp
  show "getitem ds rnd h (IntIdx i) = getitem ds (stl rnd) h1 (IntIdx (int (shd rnd mod len ds)))"
    by (rule getitem_retry[OF f c pos])
next
  fix k j
  assume "j < len ds"
  then show "card {r. r < k * len ds \<and> randint (len ds) (r ## rnd) = Inr (j, rnd)} = k"
    by (rule randint_uniform)
next
  fix h i a h'
  assume "getitem ds rnd h (IntIdx i) = Some (Inr a, h')"
  then show "has_data ds (h' ! a) = Inr True" by (rule getitem_has_data)
next
  fix h i e h'
  assume run: "getitem ds rnd h (IntIdx i) = Some (Inl e, h')"
  have "\<forall>i e. ix = IntIdx i \<and> fst y = Inl e \<longrightarrow>
          (\<exists>h0 j. get_single_item ds h0 (IntIdx j) = (Inl e, snd y))"
    if "getitem ds r hx ix = Some y" for r hx ix y
    using that
  proof (induction rule: getitem_induct)
    case (fetch_error rnd h index e h1)
    then show ?case by auto
  next
    case (check_error rnd h index a h1 e)
    show ?case
    proof (intro allI impI)
      fix i e'
      assume "index = IntIdx i \<and> fst (Inl e, h1) = Inl e'"
      with check_error(1) have f: "get_single_item ds h (IntIdx i) = (Inr a, h1)" by simp
      from get_single_item_IntIdx[OF f] obtain r where
        "join_annotations ds (h ! (data ds ! nat i)) = Inr r" "h1 ! a = r"
        by auto
      with has_data_joined[OF _ inv] check_error(2) have False by fastforce
      then show "\<exists>h0 j. get_single_item ds h0 (IntIdx j) = (Inl e', snd (Inl e, h1))" ..
    qed
  next
    case (empty rnd h index a h1 found)
    show ?case
    proof (intro allI impI)
      fix i e'
      assume "index = IntIdx i \<and> fst (Inl RandintError, h1) = Inl e'"
      with empty(1) have "get_single_item ds h (IntIdx i) = (Inr a, h1)" by simp
      from get_single_item_IntIdx[OF this] empty(3) have False by auto
      then show "\<exists>h0 j. get_single_item ds h0 (IntIdx j) = (Inl e', snd (Inl RandintError, h1))" ..
    qed
  next
    case (found rnd h index a h1)
    then show ?case by simp
  next
    case (retry rnd h index a h1 y)
    then show ?case by simp
  qed
  from this[OF run] show "\<exists>h0 j. get_single_item ds h0 (IntIdx j) = (Inl e, h')" by simp
next
  fix h i
  assume hyp: "(\<forall>b \<in> set (data ds). b < length h \<and>
                    (\<exists>r. join_annotations ds (h ! b) = Inr r \<and> has_data ds r = Inr False)) \<and>
                 0 \<le> i \<and> i < int (len ds)"
  have fetch: "\<exists>r. get_single_item ds hx (IntIdx (int j)) = (Inr (length hx), hx @ [r]) \<and>
                   has_data ds r = Inr False"
    if "prefix h hx" and "j < len ds" for hx j
  proof -
    from that(2) have "data ds ! j \<in> set (data ds)" by (simp add: len_def)
    with hyp obtain r where b: "data ds ! j < length h"
      and r: "join_annotations ds (h ! (data ds ! j)) = Inr r" "has_data ds r = Inr False"
      by blast
    from prefix_nth[OF that(1) b] r(1)
    have "join_annotations ds (hx ! (data ds ! nat (int j))) = Inr r" by simp
    with get_single_item_IntIdx_eq[of "int j" ds hx] that(2) r(2) show ?thesis by simp
  qed
  have never: "prefix h hx \<and> (\<exists>j. ix = IntIdx (int j) \<and> j < len ds) \<longrightarrow> False"
    if "getitem ds r hx ix = Some y" for r hx ix y
    using that
  proof (induction rule: getitem_induct)
    case (fetch_error rnd hx index e h1)
    then show ?case using fetch by fastforce
  next
    case (check_error rnd hx index a h1 e)
    then show ?case using fetch by fastforce
  next
    case (empty rnd hx index a h1 found)
    then show ?case by auto
  next
    case (found rnd hx index a h1)
    then show ?case using fetch by fastforce
  next
    case (retry rnd hx index a h1 y)
    show ?case
    proof
      assume "prefix h hx \<and> (\<exists>j. index = IntIdx (int j) \<and> j < len ds)"
      then have p: "prefix h hx" by simp
      from get_single_item_prefix[OF retry(1)] p have "prefix h h1"
        by (auto dest: prefix_order.trans)
      moreover from retry(3) have "shd rnd mod len ds < len ds" by simp
      ultimately show False using retry(4) by blast
    qed
  qed
  show "getitem ds rnd h (IntIdx i) = None"
  proof (cases "getitem ds rnd h (IntIdx i)")
    case None
    then show ?thesis .
  next
    case (Some y)
    from hyp have "0 \<le> i" and "i < int (len ds)" by simp_all
    then have "IntIdx i = IntIdx (int (nat i))" "nat i < len ds"
      by (simp_all add: nat_less_iff)
    with never[OF Some] have False by blast
    then show ?thesis ..
  qed
qed

theorem getitem_retry_loop_witness:
  "getitem (ex_ds [0, 2] True False False) (sconst 1) (ex_heap @ [ex_sample_2_boxes]) (IntIdx 1) =
     Some (Inl (ParseError ''notes''),
           ex_heap @ [ex_sample_2_boxes, ex_record ''val2017/notes.txt'']) \<and>
   getitem (ex_ds [0, 1, 2] True True True) (sconst 0) (ex_heap @ [ex_sample_2]) (IntIdx 1) =
     Some (Inr 4, ex_heap @ [ex_sample_2, ex_sample_1]) \<and>
   getitem (ex_ds [0, 1, 2] True True True) (1 ## sconst 0) ex_heap (IntIdx 0) =
     getitem (ex_ds [0, 1, 2] True True True) (sconst 0) (ex_heap @ [ex_sample_2]) (IntIdx 1) \<and>
   card {r. r < 2 * len (ex_ds [0, 1, 2] True True True) \<and>
            randint (len (ex_ds [0, 1, 2] True True True)) (r ## sconst 0) = Inr (1, sconst 0)} = 2 \<and>
   has_data (ex_ds [0, 1, 2] True True True) ex_sample_1 = Inr True \<and>
   (\<exists>h0 j. get_single_item (ex_ds [0, 2] True False False) h0 (IntIdx j) =
      (Inl (ParseError ''notes''), ex_heap @ [ex_sample_2_boxes, ex_record ''val2017/notes.txt''])) \<and>
   join_annotations (ex_ds [0] True False False) (ex_heap ! 0) = Inr ex_sample_2_boxes \<and>
   has_data (ex_ds [0] True False False) ex_sample_2_boxes = Inr False \<and>
   getitem (ex_ds [0] True False False) (sconst 0) ex_heap (IntIdx 0) = None"
proof -
  let ?all = "ex_ds [0, 1, 2] True True True"
  have inv_all: "include_masks ?all \<longrightarrow> include_bboxes ?all" by (simp add: ex_ds_def)
  have inv_boxes: "include_masks (ex_ds records True False False) \<longrightarrow>
                   include_bboxes (ex_ds records True False False)" for records
    by (simp add: ex_ds_def)
  note propagate = getitem_retry_loop[OF inv_boxes, of "[0, 2]" "sconst 1", THEN conjunct1,
      rule_format, OF ex_fetch_boxes_1]
  have c1: "has_data ?all ((ex_heap @ [ex_sample_2, ex_sample_1]) ! 4) = Inr True"
    unfolding ex_heap_4 by code_simp
  note returned = getitem_retry_loop[OF inv_all, of "sconst 0", THEN conjunct2, THEN conjunct1,
      rule_format, OF conjI, OF ex_fetch_1 c1]
  have c0: "has_data ?all ((ex_heap @ [ex_sample_2]) ! 3) = Inr False" by code_simp
  note step = getitem_retry_loop[OF inv_all, of "1 ## sconst 0", THEN conjunct2, THEN conjunct2,
      THEN conjunct1, rule_format, OF conjI, OF ex_fetch_0 c0]
  from step have w1: "getitem ?all (1 ## sconst 0) ex_heap (IntIdx 0) =
                   getitem ?all (sconst 0) (ex_heap @ [ex_sample_2]) (IntIdx 1)"
    by (simp add: ex_len)
  have one: "(1::nat) < len ?all" by (simp add: ex_len)
  note uniform = getitem_retry_loop[OF inv_all, of "sconst 0", THEN conjunct2, THEN conjunct2,
      THEN conjunct2, THEN conjunct1, rule_format, OF one, of 2]
  note rest_all = getitem_retry_loop[OF inv_all, of "1 ## sconst 0", THEN conjunct2,
      THEN conjunct2, THEN conjunct2, THEN conjunct2]
  from rest_all ex_access_0
  have "has_data ?all ((ex_heap @ [ex_sample_2, ex_sample_1]) ! 4) = Inr True"
    by blast
  then have w2: "has_data ?all ex_sample_1 = Inr True" by (simp only: ex_heap_4)
  note rest_boxes = getitem_retry_loop[OF inv_boxes, THEN conjunct2, THEN conjunct2,
      THEN conjunct2, THEN conjunct2]
  from rest_boxes[of "[0, 2]" "sconst 1"] ex_access_boxes_0
  have w3: "\<exists>h0 j. get_single_item (ex_ds [0, 2] True False False) h0 (IntIdx j) =
      (Inl (ParseError ''notes''), ex_heap @ [ex_sample_2_boxes, ex_record ''val2017/notes.txt''])"
    by blast
  have j0: "join_annotations (ex_ds [0] True False False) (ex_heap ! 0) = Inr ex_sample_2_boxes"
    by code_simp
  have hyp: "(\<forall>b \<in> set (data (ex_ds [0] True False False)). b < length ex_heap \<and>
                (\<exists>r. join_annotations (ex_ds [0] True False False) (ex_heap ! b) = Inr r \<and>
                     has_data (ex_ds [0] True False False) r = Inr False)) \<and>
             (0::int) \<le> 0 \<and> 0 < int (len (ex_ds [0] True False False))"
  proof -
    have d: "data (ex_ds [0] True False False) = [0]" by (simp add: ex_ds_def)
    have l: "(0::nat) < length ex_heap" by (simp add: ex_heap_def)
    show ?thesis
      unfolding d using j0 ex_incomplete_boxes[of "[0]"] l by (simp add: ex_len)
  qed
  from rest_boxes[of "[0]" "sconst 0"] hyp
  have w4: "getitem (ex_ds [0] True False False) (sconst 0) ex_heap (IntIdx 0) = None"
    by blast
  from propagate returned w1 uniform w2 w3 j0 ex_incomplete_boxes[of "[0]"] w4
  show ?thesis by simp
qed

subsection \<open>Bounding boxes and masks\<close>

text \<open>
  C4. For every integer index fetched with bounding boxes requested, the \<open>bbox\<close> field of
  the sample is the list, in the order of the annotation source, of the tuples made of
  the box of an annotation followed by its category (\<open>(x, y, w, h, category_id)\<close> for a
  box of four numbers), one per annotation that the instance index returns for the
  sample's \<open>image_id\<close> with crowd annotations filtered out. If masks are requested as
  well, \<open>mask\<close> is the parallel list of the masks of the same annotations, of the same
  length. If no annotation is found, both lists are present and empty.
\<close>

theorem populate_instance_data_lists:
  assumes "get_single_item ds h (IntIdx i) = (Inr a, h')" and "include_bboxes ds"
  shows "\<exists>n ts. image_id (h' ! a) = Some n \<and> bbox (h' ! a) = Some ts \<and>
           list_all2 (\<lambda>ann t. \<exists>l c. ann ''bbox'' = Some (JList l) \<and>
                                    ann ''category_id'' = Some c \<and> t = l @ [c])
             (noncrowd_annotations ds n) ts \<and>
           (include_masks ds \<longrightarrow>
              (\<exists>ms. mask (h' ! a) = Some ms \<and> length ms = length ts \<and>
                    list_all2 (\<lambda>ann m. annToMask (instances ds) ann = Inr m)
                      (noncrowd_annotations ds n) ms)) \<and>
           (getAnnIds (instances ds) n (Some False) = [] \<longrightarrow>
              ts = [] \<and> (include_masks ds \<longrightarrow> mask (h' ! a) = Some []))"
proof -
  from get_single_item_IntIdx[OF assms(1)] obtain r where
    a: "a = length h" and r: "join_annotations ds (h ! (data ds ! nat i)) = Inr r"
    and h': "h' = h @ [r]"
    by blast
  have at: "h' ! a = r" using a h' by simp
  from join_annotations_Inr(1)[OF r] obtain n where n: "image_id r = Some n" by blast
  from join_annotations_Inr(2)[OF r assms(2) n] obtain ts where
    ts: "list_all2 (\<lambda>ann t. bbox_entry ann = Inr t) (noncrowd_annotations ds n) ts"
    and b: "bbox r = Some ts"
    by blast
  from ts have ts': "list_all2 (\<lambda>ann t. \<exists>l c. ann ''bbox'' = Some (JList l) \<and>
                                    ann ''category_id'' = Some c \<and> t = l @ [c])
             (noncrowd_annotations ds n) ts"
    by (simp add: bbox_entry_Inr)
  have len_ts: "length ts = length (noncrowd_annotations ds n)"
    using ts by (simp add: list_all2_lengthD)
  have m: "\<exists>ms. mask r = Some ms \<and> length ms = length ts \<and>
                list_all2 (\<lambda>ann m. annToMask (instances ds) ann = Inr m)
                  (noncrowd_annotations ds n) ms" if "include_masks ds"
  proof -
    from join_annotations_Inr(3)[OF r assms(2) that n] obtain ms where
      ms: "list_all2 (\<lambda>ann m. annToMask (instances ds) ann = Inr m) (noncrowd_annotations ds n) ms"
      and "mask r = Some ms"
      by blast
    moreover from ms have "length ms = length (noncrowd_annotations ds n)"
      by (simp add: list_all2_lengthD)
    ultimately show ?thesis using len_ts by auto
  qed
  have e: "ts = [] \<and> (include_masks ds \<longrightarrow> mask r = Some [])"
    if "getAnnIds (instances ds) n (Some False) = []"
  proof -
    from that have "noncrowd_annotations ds n = []" by (simp add: noncrowd_annotations_def)
    with len_ts m show ?thesis by auto
  qed
  from n b ts' m e show ?thesis unfolding at by blast
qed

theorem populate_instance_data_lists_witness:
  "get_single_item (ex_ds [0, 1, 2] True True True) (ex_heap @ [ex_sample_2]) (IntIdx 1) =
     (Inr 4, ex_heap @ [ex_sample_2, ex_sample_1]) \<and>
   include_bboxes (ex_ds [0, 1, 2] True True True) \<and>
   include_masks (ex_ds [0, 1, 2] True True True) \<and>
   noncrowd_annotations (ex_ds [0, 1, 2] True True True) 1 = [ex_instance_anns ! 0, ex_instance_anns ! 2] \<and>
   image_id ex_sample_1 = Some 1 \<and>
   bbox ex_sample_1 = Some [[JInt 5, JInt 6, JInt 20, JInt 30, JInt 18],
                            [JFloat (1 / 2), JInt 2, JInt 8, JInt 9, JInt 3]] \<and>
   mask ex_sample_1 = Some [[[0, 1], [1, 1]], [[0, 1], [1, 1]]] \<and>
   get_single_item (ex_ds [0, 1, 2] True True True) ex_heap (IntIdx 0) =
     (Inr 3, ex_heap @ [ex_sample_2]) \<and>
   getAnnIds (instances (ex_ds [0, 1, 2] True True True)) 2 (Some False) = [] \<and>
   bbox ex_sample_2 = Some [] \<and> mask ex_sample_2 = Some []"
proof -
  let ?ds = "ex_ds [0, 1, 2] True True True"
  have ib: "include_bboxes ?ds" and im: "include_masks ?ds" by (simp_all add: ex_ds_def)
  have anns: "noncrowd_annotations ?ds 1 = [ex_instance_anns ! 0, ex_instance_anns ! 2]"
    by (simp add: noncrowd_annotations_def ex_ds_def coco_index_def ex_instance_anns_def ann_id_def)
  have none: "getAnnIds (instances ?ds) 2 (Some False) = []"
    by (simp add: ex_ds_def coco_index_def ex_instance_anns_def)
  from populate_instance_data_lists[OF ex_fetch_1 ib] im
  obtain ts ms where "image_id ex_sample_1 = Some 1" "bbox ex_sample_1 = Some ts"
    "mask ex_sample_1 = Some ms" "length ms = length ts"
    unfolding ex_heap_4 by (auto simp: ex_sample_1_def)
  then have s1: "image_id ex_sample_1 = Some 1 \<and>
      bbox ex_sample_1 = Some [[JInt 5, JInt 6, JInt 20, JInt 30, JInt 18],
                               [JFloat (1 / 2), JInt 2, JInt 8, JInt 9, JInt 3]] \<and>
      mask ex_sample_1 = Some [[[0, 1], [1, 1]], [[0, 1], [1, 1]]]"
    by (simp add: ex_sample_1_def)
  have at3: "(ex_heap @ [ex_sample_2]) ! 3 = ex_sample_2" by (simp add: ex_heap_def)
  from populate_instance_data_lists[OF ex_fetch_0 ib] none im
  have s2: "bbox ex_sample_2 = Some [] \<and> mask ex_sample_2 = Some []"
    unfolding at3 by (auto simp: ex_sample_2_def)
  from ex_fetch_1 ib im anns s1 ex_fetch_0 none s2 show ?thesis by simp
qed

subsection \<open>Subsampling and the length of the datasets\<close>

text \<open>
  C5. The claim: for every split directory and every \<open>sample_num\<close>, after
  \<^verbatim>\<open>data_subsample\<close> exactly \<open>min(sample_num, files before)\<close> files remain, and the length
  of a constructed dataset is that count. As stated this fails in three places.
  \<^verbatim>\<open>load_data\<close> subsamples before it fetches a missing directory: started with no split
  directory (no file before, so the count would be 0) and \<open>sample_num = 1\<close>, it returns
  datasets of the lengths 3 and 1 of the unpacked archives. A negative \<open>sample_num\<close>
  leaves no file, which is not the minimum. And the walk of \<^verbatim>\<open>data_subsample\<close> descends
  into subdirectories while the base dataset, built with \<^verbatim>\<open>recursive_search=False\<close>,
  looks at the directory itself: with one file there and two in a subdirectory and
  \<open>sample_num = 3\<close>, three files are retained and the dataset has length 1.
\<close>

theorem fresh_download_not_subsampled:
  "loaded_lengths (load_data ex_env Map.empty [] ''MSCOCO2017'' 1 True False False) = Inr (3, 1) \<and>
   data_subsample ex_files ''val2017'' (- 1) ''val2017'' = Some [(''val2017'', [])] \<and>
   files_of [(''val2017'', [])] = [] \<and>
   data_subsample ex_files_nested ''MSCOCO2017/train2017'' 3 ''MSCOCO2017/train2017'' =
     Some [(''MSCOCO2017/train2017'', [''000001.jpg'']),
           (''MSCOCO2017/train2017/extra'', [''000002.jpg'', ''000003.jpg''])] \<and>
   length (files_of [(''MSCOCO2017/train2017'', [''000001.jpg'']),
                     (''MSCOCO2017/train2017/extra'', [''000002.jpg'', ''000003.jpg''])]) = 3 \<and>
   loaded_lengths (load_data ex_env ex_files_nested [] ''MSCOCO2017'' 3 True False False) =
     Inr (1, 1)"
proof -
  have a: "loaded_lengths (load_data ex_env Map.empty [] ''MSCOCO2017'' 1 True False False) = Inr (3, 1)"
    by (simp add: loaded_lengths_def load_data_def data_subsample_def os_path_join_def ex_env_def
        MSCOCODataset_init_def top_files_def len_def Let_def)
  have b: "data_subsample ex_files ''val2017'' (- 1) ''val2017'' = Some [(''val2017'', [])]"
    by (simp add: data_subsample_def ex_files_def)
  have c: "data_subsample ex_files_nested ''MSCOCO2017/train2017'' 3 ''MSCOCO2017/train2017'' =
     Some [(''MSCOCO2017/train2017'', [''000001.jpg'']),
           (''MSCOCO2017/train2017/extra'', [''000002.jpg'', ''000003.jpg''])]"
    by (simp add: data_subsample_def ex_files_nested_def)
  have d: "loaded_lengths (load_data ex_env ex_files_nested [] ''MSCOCO2017'' 3 True False False) =
     Inr (1, 1)"
    by (simp add: loaded_lengths_def load_data_def data_subsample_def os_path_join_def ex_env_def
        ex_files_nested_def MSCOCODataset_init_def top_files_def len_def Let_def)
  from a b c d show ?thesis by (simp add: files_of_def)
qed

text \<open>
  C5, amended. For every split directory that exists and every \<open>sample_num\<close>, after
  \<^verbatim>\<open>data_subsample\<close> the files that remain are the first \<open>sample_num\<close> files in traversal
  order, so exactly \<open>min(sample_num, files before)\<close> of them with a negative
  \<open>sample_num\<close> counting as zero; \<open>sample_num = 0\<close> retains no file. A directory that
  does not exist is left as it is. A dataset that \<^verbatim>\<open>load_data\<close> constructs over a split
  directory that existed before the call is the base dataset built over that
  directory as subsampled. The base looks at the directory itself only, so when it
  holds one record per file there, the length of the dataset is
  \<open>min(sample_num, files of the directory itself before)\<close>, which is the retained count
  when the split has no subdirectory. Over a split directory that did not exist the
  dataset is built over the directory that the archive unpacks to, not subsampled.
\<close>

theorem data_subsample_retains:
  "(\<forall>w. files source_dir = Some w \<longrightarrow>
      (\<exists>w'. data_subsample files source_dir sample_num source_dir = Some w' \<and>
            files_of w' = take (nat sample_num) (files_of w) \<and>
            length (files_of w') = min (nat sample_num) (length (files_of w)) \<and>
            (sample_num = 0 \<longrightarrow> files_of w' = []))) \<and>
   (files source_dir = None \<longrightarrow> data_subsample files source_dir sample_num = files) \<and>
   (\<forall>train_ds eval_ds files' h'.
      load_data env files h root_dir sample_num load_bboxes load_masks load_captions =
        (Inr (train_ds, eval_ds), files', h') \<longrightarrow>
      (\<forall>w. files (os_path_join root_dir ''train2017'') = Some w \<longrightarrow>
         (\<exists>b hx hy. DirDataset env (Some (subsample_walk sample_num 0 w)) hx = (Inr b, hy) \<and>
                    data train_ds = data b) \<and>
         (one_record_per_file env (subsample_walk sample_num 0 w) \<longrightarrow>
            len train_ds = min (nat sample_num) (length (top_files w)) \<and>
            (tl w = [] \<longrightarrow> len train_ds = min (nat sample_num) (length (files_of w))))) \<and>
      (\<forall>w. files (os_path_join root_dir ''val2017'') = Some w \<longrightarrow>
         (\<exists>b hx hy. DirDataset env (Some (subsample_walk sample_num 0 w)) hx = (Inr b, hy) \<and>
                    data eval_ds = data b) \<and>
         (one_record_per_file env (subsample_walk sample_num 0 w) \<longrightarrow>
            len eval_ds = min (nat sample_num) (length (top_files w)) \<and>
            (tl w = [] \<longrightarrow> len eval_ds = min (nat sample_num) (length (files_of w))))) \<and>
      (files (os_path_join root_dir ''train2017'') = None \<longrightarrow>
         (\<exists>w. unpack env ''train2017.zip'' = Inr w \<and>
              (\<exists>b hx hy. DirDataset env (Some w) hx = (Inr b, hy) \<and> data train_ds = data b) \<and>
              (one_record_per_file env w \<longrightarrow> len train_ds = length (top_files w)))) \<and>
      (files (os_path_join root_dir ''val2017'') = None \<longrightarrow>
         (\<exists>w. unpack env ''val2017.zip'' = Inr w \<and>
              (\<exists>b hx hy. DirDataset env (Some w) hx = (Inr b, hy) \<and> data eval_ds = data b) \<and>
              (one_record_per_file env w \<longrightarrow> len eval_ds = length (top_files w)))))"
proof -
  have one: "\<exists>w'. data_subsample files source_dir sample_num source_dir = Some w' \<and>
            files_of w' = take (nat sample_num) (files_of w) \<and>
            length (files_of w') = min (nat sample_num) (length (files_of w)) \<and>
            (sample_num = 0 \<longrightarrow> files_of w' = [])"
    if "files source_dir = Some w" for w
    using that files_of_subsample_walk[of sample_num 0 w] files_of_subsample_walk[of 0 0 w]
    by (simp add: data_subsample_apply min.commute)
  have none: "data_subsample files source_dir sample_num = files" if "files source_dir = None"
    using that by (simp add: data_subsample_def)
  have existing:
    "(\<exists>b hx hy. DirDataset env (Some (subsample_walk sample_num 0 w)) hx = (Inr b, hy) \<and>
                 data ds = data b) \<and>
     (one_record_per_file env (subsample_walk sample_num 0 w) \<longrightarrow>
        len ds = min (nat sample_num) (length (top_files w)) \<and>
        (tl w = [] \<longrightarrow> len ds = min (nat sample_num) (length (files_of w))))"
    if built: "\<exists>b. DirDataset env (Some (subsample_walk sample_num 0 w)) hx = (Inr b, hy) \<and>
                    data ds = data b"
    for w ds hx hy
  proof (intro conjI impI)
    from built show "\<exists>b hx hy. DirDataset env (Some (subsample_walk sample_num 0 w)) hx = (Inr b, hy) \<and>
                 data ds = data b"
      by blast
  next
    assume c: "one_record_per_file env (subsample_walk sample_num 0 w)"
    from built obtain b where b: "DirDataset env (Some (subsample_walk sample_num 0 w)) hx = (Inr b, hy)"
      and d: "data ds = data b"
      by blast
    from c b have "length (data b) = length (top_files (subsample_walk sample_num 0 w))"
      unfolding one_record_per_file_def by blast
    with d show l: "len ds = min (nat sample_num) (length (top_files w))"
      by (simp add: len_def top_files_subsample_walk min.commute)
    show "len ds = min (nat sample_num) (length (files_of w))" if "tl w = []"
      using l files_of_flat[OF that] by simp
  qed
  have missing:
    "\<exists>w. unpack env z = Inr w \<and>
         (\<exists>b hx hy. DirDataset env (Some w) hx = (Inr b, hy) \<and> data ds = data b) \<and>
         (one_record_per_file env w \<longrightarrow> len ds = length (top_files w))"
    if built: "\<exists>w b. unpack env z = Inr w \<and> DirDataset env (Some w) hx = (Inr b, hy) \<and>
                      data ds = data b"
    for z ds hx hy
  proof -
    from built obtain w b where w: "unpack env z = Inr w"
      and b: "DirDataset env (Some w) hx = (Inr b, hy)" and d: "data ds = data b"
      by blast
    have "len ds = length (top_files w)" if "one_record_per_file env w"
      using that b d unfolding one_record_per_file_def len_def by fastforce
    with w b d show ?thesis by blast
  qed
  have loaded:
    "(\<forall>w. files (os_path_join root_dir ''train2017'') = Some w \<longrightarrow>
         (\<exists>b hx hy. DirDataset env (Some (subsample_walk sample_num 0 w)) hx = (Inr b, hy) \<and>
                    data train_ds = data b) \<and>
         (one_record_per_file env (subsample_walk sample_num 0 w) \<longrightarrow>
            len train_ds = min (nat sample_num) (length (top_files w)) \<and>
            (tl w = [] \<longrightarrow> len train_ds = min (nat sample_num) (length (files_of w))))) \<and>
      (\<forall>w. files (os_path_join root_dir ''val2017'') = Some w \<longrightarrow>
         (\<exists>b hx hy. DirDataset env (Some (subsample_walk sample_num 0 w)) hx = (Inr b, hy) \<and>
                    data eval_ds = data b) \<and>
         (one_record_per_file env (subsample_walk sample_num 0 w) \<longrightarrow>
            len eval_ds = min (nat sample_num) (length (top_files w)) \<and>
            (tl w = [] \<longrightarrow> len eval_ds = min (nat sample_num) (length (files_of w))))) \<and>
      (files (os_path_join root_dir ''train2017'') = None \<longrightarrow>
         (\<exists>w. unpack env ''train2017.zip'' = Inr w \<and>
              (\<exists>b hx hy. DirDataset env (Some w) hx = (Inr b, hy) \<and> data train_ds = data b) \<and>
              (one_record_per_file env w \<longrightarrow> len train_ds = length (top_files w)))) \<and>
      (files (os_path_join root_dir ''val2017'') = None \<longrightarrow>
         (\<exists>w. unpack env ''val2017.zip'' = Inr w \<and>
              (\<exists>b hx hy. DirDataset env (Some w) hx = (Inr b, hy) \<and> data eval_ds = data b) \<and>
              (one_record_per_file env w \<longrightarrow> len eval_ds = length (top_files w))))"
    if run: "load_data env files h root_dir sample_num load_bboxes load_masks load_captions =
               (Inr (train_ds, eval_ds), files', h')"
    for train_ds eval_ds files' h'
  proof -
    let ?td = "os_path_join root_dir ''train2017''"
    let ?ed = "os_path_join root_dir ''val2017''"
    let ?ad = "os_path_join root_dir ''annotations''"
    let ?files2 = "data_subsample (data_subsample files ?td sample_num) ?ed sample_num"
    let ?l = "[(?td, ''train2017.zip''), (?ed, ''val2017.zip''),
               (?ad, ''annotations_trainval2017.zip'')]"
    from split_dirs_distinct[of root_dir] have ne: "?td \<noteq> ?ed" and dist: "distinct (map fst ?l)"
      by simp_all
    have f2t: "?files2 ?td = map_option (subsample_walk sample_num 0) (files ?td)"
      and f2e: "?files2 ?ed = map_option (subsample_walk sample_num 0) (files ?ed)"
      using ne by (simp_all add: data_subsample_apply)
    from load_data_Inr[OF run] obtain u files3 h1 o1 o2 where
      ex: "extract_missing env ?files2 ?l = (Inr u, files3)"
      and it: "MSCOCODataset_init env files3 h ?td
             (os_path_join ?ad ''instances_train2017.json'')
             (os_path_join ?ad ''captions_train2017.json'')
             load_bboxes load_masks load_captions = (Inr train_ds, h1, o1)"
      and ie: "MSCOCODataset_init env files3 h1 ?ed
             (os_path_join ?ad ''instances_val2017.json'')
             (os_path_join ?ad ''captions_val2017.json'')
             load_bboxes load_masks load_captions = (Inr eval_ds, h', o2)"
      by blast
    have mt: "(?td, ''train2017.zip'') \<in> set ?l" and me: "(?ed, ''val2017.zip'') \<in> set ?l"
      by simp_all
    note t = split_built[OF ex dist mt it, unfolded f2t]
    note e = split_built[OF ex dist me ie, unfolded f2e]
    show ?thesis
    proof (intro conjI allI impI)
      fix w
      assume w: "files ?td = Some w"
      with t have "\<exists>b. DirDataset env (Some (subsample_walk sample_num 0 w)) h = (Inr b, h1) \<and>
                       data train_ds = data b"
        by simp
      from existing[OF this]
      show "\<exists>b hx hy. DirDataset env (Some (subsample_walk sample_num 0 w)) hx = (Inr b, hy) \<and>
                     data train_ds = data b"
        and "one_record_per_file env (subsample_walk sample_num 0 w) \<Longrightarrow>
               len train_ds = min (nat sample_num) (length (top_files w))"
        and "one_record_per_file env (subsample_walk sample_num 0 w) \<Longrightarrow> tl w = [] \<Longrightarrow>
               len train_ds = min (nat sample_num) (length (files_of w))"
        by blast+
    next
      fix w
      assume w: "files ?ed = Some w"
      with e have "\<exists>b. DirDataset env (Some (subsample_walk sample_num 0 w)) h1 = (Inr b, h') \<and>
                       data eval_ds = data b"
        by simp
      from existing[OF this]
      show "\<exists>b hx hy. DirDataset env (Some (subsample_walk sample_num 0 w)) hx = (Inr b, hy) \<and>
                     data eval_ds = data b"
        and "one_record_per_file env (subsample_walk sample_num 0 w) \<Longrightarrow>
               len eval_ds = min (nat sample_num) (length (top_files w))"
        and "one_record_per_file env (subsample_walk sample_num 0 w) \<Longrightarrow> tl w = [] \<Longrightarrow>
               len eval_ds = min (nat sample_num) (length (files_of w))"
        by blast+
    next
      assume "files ?td = None"
      with t have "\<exists>w b. unpack env ''train2017.zip'' = Inr w \<and>
                         DirDataset env (Some w) h = (Inr b, h1) \<and> data train_ds = data b"
        by simp
      from missing[OF this]
      show "\<exists>w. unpack env ''train2017.zip'' = Inr w \<and>
              (\<exists>b hx hy. DirDataset env (Some w) hx = (Inr b, hy) \<and> data train_ds = data b) \<and>
              (one_record_per_file env w \<longrightarrow> len train_ds = length (top_files w))" .
    next
      assume "files ?ed = None"
      with e have "\<exists>w b. unpack env ''val2017.zip'' = Inr w \<and>
                         DirDataset env (Some w) h1 = (Inr b, h') \<and> data eval_ds = data b"
        by simp
      from missing[OF this]
      show "\<exists>w. unpack env ''val2017.zip'' = Inr w \<and>
              (\<exists>b hx hy. DirDataset env (Some w) hx = (Inr b, hy) \<and> data eval_ds = data b) \<and>
              (one_record_per_file env w \<longrightarrow> len eval_ds = length (top_files w))" .
    qed
  qed
  from one none loaded show ?thesis by blast
qed

theorem data_subsample_retains_witness:
  "ex_files ''val2017'' = Some [(''val2017'', [''000002.jpg'', ''000001.jpg'', ''notes.txt''])] \<and>
   (\<exists>w'. data_subsample ex_files ''val2017'' 2 ''val2017'' = Some w' \<and>
         files_of w' = [''val2017/000002.jpg'', ''val2017/000001.jpg''] \<and>
         length (files_of w') = 2) \<and>
   (\<exists>w'. data_subsample ex_files ''val2017'' 0 ''val2017'' = Some w' \<and> files_of w' = []) \<and>
   (\<exists>w'. data_subsample ex_files ''val2017'' 5 ''val2017'' = Some w' \<and> length (files_of w') = 3) \<and>
   data_subsample ex_files ''train2017'' 2 = ex_files \<and>
   loaded_lengths (load_data ex_env ex_files_train [] ''MSCOCO2017'' 1 True False False) =
     Inr (1, 1) \<and>
   loaded_lengths (load_data ex_env ex_files_nested [] ''MSCOCO2017'' 3 True False False) =
     Inr (1, 1)"
proof -
  let ?w = "[(''val2017'', [''000002.jpg'', ''000001.jpg'', ''notes.txt''])]"
  have w: "ex_files ''val2017'' = Some ?w" by (simp add: ex_files_def)
  have fw: "files_of ?w = [''val2017/000002.jpg'', ''val2017/000001.jpg'', ''val2017/notes.txt'']"
    by (simp add: files_of_def os_path_join_def)
  note kept = data_subsample_retains[where files = ex_files and source_dir = "''val2017''",
      THEN conjunct1, rule_format, OF w]
  from kept[of 2]
  have a: "\<exists>w'. data_subsample ex_files ''val2017'' 2 ''val2017'' = Some w' \<and>
         files_of w' = [''val2017/000002.jpg'', ''val2017/000001.jpg''] \<and>
         length (files_of w') = 2"
    by (auto simp: fw)
  from kept[of 0]
  have b: "\<exists>w'. data_subsample ex_files ''val2017'' 0 ''val2017'' = Some w' \<and> files_of w' = []"
    by auto
  from kept[of 5]
  have c: "\<exists>w'. data_subsample ex_files ''val2017'' 5 ''val2017'' = Some w' \<and> length (files_of w') = 3"
    by (auto simp: fw)
  have "ex_files ''train2017'' = None" by (simp add: ex_files_def)
  with data_subsample_retains[where files = ex_files and source_dir = "''train2017''"
      and sample_num = 2, THEN conjunct2, THEN conjunct1]
  have d: "data_subsample ex_files ''train2017'' 2 = ex_files" by blast
  have contract: "one_record_per_file ex_env l" for l
    by (auto simp: one_record_per_file_def ex_env_def)
  have zip: "unpack ex_env ''val2017.zip'' = Inr [(''MSCOCO2017/val2017'', [''000004.jpg''])]"
    by (simp add: ex_env_def)
  have ztop: "length (top_files [(''MSCOCO2017/val2017'', [''000004.jpg''])]) = 1"
    by (simp add: top_files_def)
  let ?flat = "[(''MSCOCO2017/train2017'', [''000001.jpg'', ''000002.jpg'', ''000003.jpg''])]"
  let ?run = "load_data ex_env ex_files_train [] ''MSCOCO2017'' 1 True False False"
  have ok: "\<not> isl (fst ?run)"
    by (simp add: load_data_def data_subsample_def os_path_join_def ex_env_def ex_files_train_def
        MSCOCODataset_init_def top_files_def Let_def)
  then obtain tr ev fs' h' where run: "?run = (Inr (tr, ev), fs', h')"
    by (cases ?run; cases "fst ?run") auto
  have tdir: "ex_files_train (os_path_join ''MSCOCO2017'' ''train2017'') = Some ?flat"
    and vdir: "ex_files_train (os_path_join ''MSCOCO2017'' ''val2017'') = None"
    by (simp_all add: ex_files_train_def os_path_join_def)
  have flat: "tl ?flat = []" and nflat: "length (files_of ?flat) = 3"
    by (simp_all add: files_of_def)
  note loaded = data_subsample_retains[where env = ex_env and files = ex_files_train and h = "[]"
      and root_dir = "''MSCOCO2017''" and sample_num = 1 and load_bboxes = True
      and load_masks = False and load_captions = False, THEN conjunct2, THEN conjunct2,
      rule_format, OF run]
  from loaded[THEN conjunct1, rule_format, OF tdir, THEN conjunct2, rule_format, OF contract,
      THEN conjunct2, rule_format, OF flat]
  have lt: "len tr = 1" by (simp add: nflat)
  from loaded[THEN conjunct2, THEN conjunct2, THEN conjunct2, rule_format, OF vdir] zip contract
  have le: "len ev = 1" using ztop by auto
  from lt le run have e: "loaded_lengths ?run = Inr (1, 1)" by (simp add: loaded_lengths_def)
  let ?nested = "[(''MSCOCO2017/train2017'', [''000001.jpg'']),
                  (''MSCOCO2017/train2017/extra'', [''000002.jpg'', ''000003.jpg''])]"
  let ?run2 = "load_data ex_env ex_files_nested [] ''MSCOCO2017'' 3 True False False"
  have ok2: "\<not> isl (fst ?run2)"
    by (simp add: load_data_def data_subsample_def os_path_join_def ex_env_def ex_files_nested_def
        MSCOCODataset_init_def top_files_def Let_def)
  then obtain tr2 ev2 fs2 h2 where run2: "?run2 = (Inr (tr2, ev2), fs2, h2)"
    by (cases ?run2; cases "fst ?run2") auto
  have tdir2: "ex_files_nested (os_path_join ''MSCOCO2017'' ''train2017'') = Some ?nested"
    and vdir2: "ex_files_nested (os_path_join ''MSCOCO2017'' ''val2017'') = None"
    by (simp_all add: ex_files_nested_def os_path_join_def)
  have ntop: "length (top_files ?nested) = 1" by (simp add: top_files_def)
  note loaded2 = data_subsample_retains[where env = ex_env and files = ex_files_nested and h = "[]"
      and root_dir = "''MSCOCO2017''" and sample_num = 3 and load_bboxes = True
      and load_masks = False and load_captions = False, THEN conjunct2, THEN conjunct2,
      rule_format, OF run2]
  from loaded2[THEN conjunct1, rule_format, OF tdir2, THEN conjunct2, rule_format, OF contract,
      THEN conjunct1]
  have lt2: "len tr2 = 1" by (simp add: ntop)
  from loaded2[THEN conjunct2, THEN conjunct2, THEN conjunct2, rule_format, OF vdir2] zip contract
  have le2: "len ev2 = 1" using ztop by auto
  from lt2 le2 run2 have f: "loaded_lengths ?run2 = Inr (1, 1)" by (simp add: loaded_lengths_def)
  from w a b c d e f show ?thesis by simp
qed

subsection \<open>Opening the annotation sources\<close>

text \<open>
  C6. The claim: for every configuration, construction opens and indexes both
  annotation sources, exactly once each. As stated this fails: the caption source is
  opened only when captions are requested. Below, with the default flags, the instance
  file is the only file given to \<^verbatim>\<open>COCO(...)\<close> and the caption handle is \<^verbatim>\<open>None\<close>.
\<close>

theorem caption_source_not_opened:
  "MSCOCODataset_init ex_env ex_files [] ''val2017'' ''instances.json'' ''captions.json''
       True False False =
     (Inr (ex_ds [0, 1, 2] True False False), ex_heap, [''instances.json'']) \<and>
   captions (ex_ds [0, 1, 2] True False False) = None"
  by (simp add: ex_init) (simp add: ex_ds_def)

text \<open>
  C6, amended. When the base dataset can be built over the image directory and the
  flags satisfy the assertion, construction opens the instance source exactly once,
  first; it opens the caption source exactly once after it when captions are
  requested (and the instance source loaded), and not at all otherwise. A load that
  fails ends the construction with that failure, and the dataset that is returned
  holds the loaded handles.
\<close>

theorem init_opens_sources:
  assumes "DirDataset env (files image_dir) h = (Inr b, h1)" and "load_masks \<longrightarrow> load_bboxes"
  shows "snd (snd (MSCOCODataset_init env files h image_dir annotation_file caption_file
                     load_bboxes load_masks load_captions)) =
           annotation_file #
             (if load_captions \<and> \<not> isl (COCO env annotation_file) then [caption_file] else []) \<and>
         (\<forall>msg. COCO env annotation_file = Inl msg \<longrightarrow>
            fst (MSCOCODataset_init env files h image_dir annotation_file caption_file
                   load_bboxes load_masks load_captions) = Inl (External msg)) \<and>
         (\<forall>msg. \<not> isl (COCO env annotation_file) \<and> load_captions \<and>
                COCO env caption_file = Inl msg \<longrightarrow>
            fst (MSCOCODataset_init env files h image_dir annotation_file caption_file
                   load_bboxes load_masks load_captions) = Inl (External msg)) \<and>
         (\<forall>ds. fst (MSCOCODataset_init env files h image_dir annotation_file caption_file
                      load_bboxes load_masks load_captions) = Inr ds \<longrightarrow>
            COCO env annotation_file = Inr (instances ds) \<and>
            (if load_captions then \<exists>cap. captions ds = Some cap \<and> COCO env caption_file = Inr cap
             else captions ds = None))"
  using assms
  by (cases "COCO env annotation_file"; cases "COCO env caption_file")
    (auto simp: MSCOCODataset_init_def)

theorem init_opens_sources_witness:
  "DirDataset ex_env (ex_files ''val2017'') [] =
     (Inr \<lparr>data = [0, 1, 2], by_key = ex_by_key 0\<rparr>, ex_heap) \<and>
   snd (snd (MSCOCODataset_init ex_env ex_files [] ''val2017'' ''instances.json'' ''captions.json''
               True True True)) = [''instances.json'', ''captions.json''] \<and>
   snd (snd (MSCOCODataset_init ex_env ex_files [] ''val2017'' ''instances.json'' ''captions.json''
               True False False)) = [''instances.json''] \<and>
   fst (MSCOCODataset_init ex_env ex_files [] ''val2017'' ''missing.json'' ''captions.json''
          True False True) = Inl (External ''missing.json'') \<and>
   snd (snd (MSCOCODataset_init ex_env ex_files [] ''val2017'' ''missing.json'' ''captions.json''
               True False True)) = [''missing.json''] \<and>
   fst (MSCOCODataset_init ex_env ex_files [] ''val2017'' ''instances.json'' ''missing.json''
          True False True) = Inl (External ''missing.json'')"
proof -
  have base: "DirDataset ex_env (ex_files ''val2017'') [] =
     (Inr \<lparr>data = [0, 1, 2], by_key = ex_by_key 0\<rparr>, ex_heap)"
    by (simp add: ex_env_def ex_files_def ex_heap_def top_files_def os_path_join_def)
  have inst: "COCO ex_env ''instances.json'' = Inr (coco_index ex_instance_anns)"
    and cap: "COCO ex_env ''captions.json'' = Inr (coco_index ex_caption_anns)"
    and miss: "COCO ex_env ''missing.json'' = Inl ''missing.json''"
    by (simp_all add: ex_env_def)
  from init_opens_sources[where env = ex_env and files = ex_files and image_dir = "''val2017''" and h = "[]"
      and load_masks = True and load_bboxes = True and load_captions = True
      and annotation_file = "''instances.json''" and caption_file = "''captions.json''", OF base]
  have a: "snd (snd (MSCOCODataset_init ex_env ex_files [] ''val2017'' ''instances.json''
                       ''captions.json'' True True True)) = [''instances.json'', ''captions.json'']"
    by (simp add: inst)
  from init_opens_sources[where env = ex_env and files = ex_files and image_dir = "''val2017''" and h = "[]"
      and load_masks = False and load_bboxes = True and load_captions = False
      and annotation_file = "''instances.json''" and caption_file = "''captions.json''", OF base]
  have b: "snd (snd (MSCOCODataset_init ex_env ex_files [] ''val2017'' ''instances.json''
                       ''captions.json'' True False False)) = [''instances.json'']"
    by simp
  from init_opens_sources[where env = ex_env and files = ex_files and image_dir = "''val2017''" and h = "[]"
      and load_masks = False and load_bboxes = True and load_captions = True
      and annotation_file = "''missing.json''" and caption_file = "''captions.json''", OF base]
  have c: "fst (MSCOCODataset_init ex_env ex_files [] ''val2017'' ''missing.json'' ''captions.json''
                  True False True) = Inl (External ''missing.json'')"
    and d: "snd (snd (MSCOCODataset_init ex_env ex_files [] ''val2017'' ''missing.json''
                        ''captions.json'' True False True)) = [''missing.json'']"
    by (simp_all add: miss)
  from init_opens_sources[where env = ex_env and files = ex_files and image_dir = "''val2017''" and h = "[]"
      and load_masks = False and load_bboxes = True and load_captions = True
      and annotation_file = "''instances.json''" and caption_file = "''missing.json''", OF base]
  have e: "fst (MSCOCODataset_init ex_env ex_files [] ''val2017'' ''instances.json'' ''missing.json''
                  True False True) = Inl (External ''missing.json'')"
    by (simp add: inst miss)
  from base a b c d e show ?thesis by simp
qed

subsection \<open>Masks require bounding boxes\<close>

text \<open>
  C7. For every configuration that requests masks without bounding boxes, construction
  fails, at construction time: no dataset is returned and no annotation source is
  opened; the failure is the configuration error of the assertion whenever the base
  dataset itself can be built over the directory. For every configuration in which
  masks imply bounding boxes, construction does not raise this error.
\<close>

theorem masks_require_bboxes:
  "(load_masks \<and> \<not> load_bboxes \<longrightarrow>
      (\<exists>e h1. MSCOCODataset_init env files h image_dir annotation_file caption_file
                 load_bboxes load_masks load_captions = (Inl e, h1, [])) \<and>
      (\<forall>b h1. DirDataset env (files image_dir) h = (Inr b, h1) \<longrightarrow>
         MSCOCODataset_init env files h image_dir annotation_file caption_file
             load_bboxes load_masks load_captions =
           (Inl (AssertionError ''must include bboxes with mask data''), h1, []))) \<and>
   ((load_masks \<longrightarrow> load_bboxes) \<longrightarrow>
      (\<forall>msg. fst (MSCOCODataset_init env files h image_dir annotation_file caption_file
                    load_bboxes load_masks load_captions) \<noteq> Inl (AssertionError msg)))"
  by (cases "DirDataset env (files image_dir) h"; cases "COCO env annotation_file";
      cases "COCO env caption_file")
    (auto simp: MSCOCODataset_init_def split: sum.splits)

theorem masks_require_bboxes_witness:
  "MSCOCODataset_init ex_env ex_files [] ''val2017'' ''instances.json'' ''captions.json''
       False True False =
     (Inl (AssertionError ''must include bboxes with mask data''), ex_heap, []) \<and>
   fst (MSCOCODataset_init ex_env ex_files [] ''val2017'' ''instances.json'' ''captions.json''
          True True False) = Inr (ex_ds [0, 1, 2] True True False) \<and>
   (\<forall>msg. fst (MSCOCODataset_init ex_env ex_files [] ''val2017'' ''instances.json'' ''captions.json''
                 True True False) \<noteq> Inl (AssertionError msg)) \<and>
   (\<forall>msg. fst (MSCOCODataset_init ex_env ex_files [] ''val2017'' ''instances.json'' ''captions.json''
                 False False False) \<noteq> Inl (AssertionError msg))"
proof -
  have base: "DirDataset ex_env (ex_files ''val2017'') [] =
     (Inr \<lparr>data = [0, 1, 2], by_key = ex_by_key 0\<rparr>, ex_heap)"
    by (simp add: ex_env_def ex_files_def ex_heap_def top_files_def os_path_join_def)
  from masks_require_bboxes[where env = ex_env and files = ex_files and image_dir = "''val2017''" and h = "[]"
      and load_masks = True and load_bboxes = False and load_captions = False
      and annotation_file = "''instances.json''" and caption_file = "''captions.json''"] base
  have a: "MSCOCODataset_init ex_env ex_files [] ''val2017'' ''instances.json'' ''captions.json''
       False True False =
     (Inl (AssertionError ''must include bboxes with mask data''), ex_heap, [])"
    by simp
  from masks_require_bboxes[where env = ex_env and files = ex_files and image_dir = "''val2017''" and h = "[]"
      and load_masks = True and load_bboxes = True and load_captions = False
      and annotation_file = "''instances.json''" and caption_file = "''captions.json''"]
  have b: "\<forall>msg. fst (MSCOCODataset_init ex_env ex_files [] ''val2017'' ''instances.json''
                 ''captions.json'' True True False) \<noteq> Inl (AssertionError msg)"
    by simp
  from masks_require_bboxes[where env = ex_env and files = ex_files and image_dir = "''val2017''" and h = "[]"
      and load_masks = False and load_bboxes = False and load_captions = False
      and annotation_file = "''instances.json''" and caption_file = "''captions.json''"]
  have c: "\<forall>msg. fst (MSCOCODataset_init ex_env ex_files [] ''val2017'' ''instances.json''
                 ''captions.json'' False False False) \<noteq> Inl (AssertionError msg)"
    by simp
  have d: "fst (MSCOCODataset_init ex_env ex_files [] ''val2017'' ''instances.json'' ''captions.json''
          True True False) = Inr (ex_ds [0, 1, 2] True True False)"
    by (simp add: ex_init)
  from a b c d show ?thesis by simp
qed

subsection \<open>The image identifier\<close>

text \<open>
  C8. Round trip: for every sample returned for an integer index (by the fetch of one
  item, and so by indexed access), the integer parsed from the stem of the file name of
  the sample's \<open>image\<close> path is the sample's \<open>image_id\<close>.
\<close>

theorem image_id_round_trip:
  assumes "get_single_item ds h (IntIdx i) = (Inr a, h') \<or>
           getitem ds rnd h (IntIdx i) = Some (Inr a, h')"
  shows "\<exists>p n. image (h' ! a) = Some p \<and> image_id (h' ! a) = Some n \<and>
               py_int (image_stem p) = Some n"
proof -
  from assms obtain h0 j where "get_single_item ds h0 (IntIdx j) = (Inr a, h')"
    using getitem_IntIdx_fetch by blast
  from get_single_item_IntIdx[OF this] obtain r where
    a: "a = length h0" and r: "join_annotations ds (h0 ! (data ds ! nat j)) = Inr r"
    and h': "h' = h0 @ [r]"
    by blast
  from join_annotations_Inr(1)[OF r] a h' show ?thesis by auto
qed

theorem image_id_round_trip_witness:
  "getitem (ex_ds [0, 1, 2] True True True) (1 ## sconst 0) ex_heap (IntIdx 0) =
     Some (Inr 4, ex_heap @ [ex_sample_2, ex_sample_1]) \<and>
   image ex_sample_1 = Some ''val2017/000001.jpg'' \<and> image_id ex_sample_1 = Some 1 \<and>
   py_int (image_stem ''val2017/000001.jpg'') = Some 1"
proof -
  from image_id_round_trip[OF disjI2, OF ex_access_0]
  obtain p n where "image ex_sample_1 = Some p" "image_id ex_sample_1 = Some n"
    "py_int (image_stem p) = Some n"
    unfolding ex_heap_4 by blast
  then have "image ex_sample_1 = Some ''val2017/000001.jpg'' \<and> image_id ex_sample_1 = Some 1 \<and>
    py_int (image_stem ''val2017/000001.jpg'') = Some 1"
    by (auto simp: ex_sample_1_def)
  with ex_access_0 show ?thesis by simp
qed

subsection \<open>File names that are not numbers\<close>

text \<open>
  C9. For every integer index whose base record has an image file name with a stem
  that is not a valid integer, sample access fails with a parse error at access time;
  the error ends the access, it is neither recovered nor retried. For a file name with
  a valid integer stem the fetch raises no parse error, and when every record of the
  dataset has such a name no access raises one.
\<close>

theorem malformed_filename_parse_error:
  assumes "0 \<le> i" and "i < int (len ds)" and "image (h ! (data ds ! nat i)) = Some p"
  shows "(py_int (image_stem p) = None \<longrightarrow>
            get_single_item ds h (IntIdx i) =
              (Inl (ParseError (image_stem p)), h @ [h ! (data ds ! nat i)]) \<and>
            getitem ds rnd h (IntIdx i) =
              Some (Inl (ParseError (image_stem p)), h @ [h ! (data ds ! nat i)])) \<and>
         (py_int (image_stem p) \<noteq> None \<longrightarrow>
            (\<forall>s h1. get_single_item ds h (IntIdx i) \<noteq> (Inl (ParseError s), h1))) \<and>
         ((\<forall>b \<in> set (data ds). b < length h \<and>
              (\<exists>q. image (h ! b) = Some q \<and> py_int (image_stem q) \<noteq> None)) \<longrightarrow>
            (\<forall>index s h1. getitem ds rnd h index \<noteq> Some (Inl (ParseError s), h1)))"
proof (intro conjI impI allI)
  assume bad: "py_int (image_stem p) = None"
  have j: "join_annotations ds (h ! (data ds ! nat i)) = Inl (ParseError (image_stem p))"
    using assms(3) bad by (simp add: join_annotations_def)
  show f: "get_single_item ds h (IntIdx i) =
             (Inl (ParseError (image_stem p)), h @ [h ! (data ds ! nat i)])"
    using get_single_item_IntIdx_eq[OF assms(1,2), of h] j by simp
  show "getitem ds rnd h (IntIdx i) =
          Some (Inl (ParseError (image_stem p)), h @ [h ! (data ds ! nat i)])"
    by (rule getitem_fetch_error[OF f])
next
  fix s h1
  assume "py_int (image_stem p) \<noteq> None"
  then obtain n where "py_int (image_stem p) = Some n" by blast
  from join_annotations_no_parse_error[OF assms(3) this]
  show "get_single_item ds h (IntIdx i) \<noteq> (Inl (ParseError s), h1)"
    using get_single_item_IntIdx_eq[OF assms(1,2), of h] by (auto split: sum.splits)
next
  fix index s h1
  assume ok: "\<forall>b \<in> set (data ds). b < length h \<and>
                (\<exists>q. image (h ! b) = Some q \<and> py_int (image_stem q) \<noteq> None)"
  have fetch: "e \<noteq> ParseError s"
    if "get_single_item ds hx ix = (Inl e, hy)" and "prefix h hx" for hx ix e hy
  proof (cases ix)
    case (StrKey k)
    with that(1) show ?thesis
      by (auto simp: get_single_item_StrKey split: key_result.splits)
  next
    case (IntIdx j)
    show ?thesis
    proof (cases "0 \<le> j \<and> j < int (len ds)")
      case False
      with that(1) IntIdx show ?thesis
        by (auto simp: get_single_item_def base_getitem_def len_def)
    next
      case True
      then have "nat j < length (data ds)" by (simp add: len_def nat_less_iff)
      then have "data ds ! nat j \<in> set (data ds)" by (rule nth_mem)
      with ok obtain q n where b: "data ds ! nat j < length h"
        and q: "image (h ! (data ds ! nat j)) = Some q" "py_int (image_stem q) = Some n"
        by blast
      from prefix_nth[OF that(2) b] q have "image (hx ! (data ds ! nat j)) = Some q" by simp
      from join_annotations_no_parse_error[OF this q(2)] that(1) IntIdx True
      show ?thesis
        using get_single_item_IntIdx_eq[of j ds hx] by (auto split: sum.splits)
    qed
  qed
  have "prefix h hx \<longrightarrow> fst y \<noteq> Inl (ParseError s)" if "getitem ds r hx ix = Some y" for r hx ix y
    using that
  proof (induction rule: getitem_induct)
    case (fetch_error rnd h index e h1)
    then show ?case using fetch by auto
  next
    case (check_error rnd h index a h1 e)
    then show ?case using has_data_KeyError by fastforce
  next
    case (retry rnd hx index a h1 y)
    from get_single_item_prefix[OF retry(1)] retry(4) show ?case
      by (auto dest: prefix_order.trans)
  qed simp_all
  from this[of rnd h index "(Inl (ParseError s), h1)"]
  show "getitem ds rnd h index \<noteq> Some (Inl (ParseError s), h1)" by auto
qed

theorem malformed_filename_parse_error_witness:
  "py_int (image_stem ''val2017/notes.txt'') = None \<and>
   getitem (ex_ds [0, 1, 2] True False False) (sconst 0) ex_heap (IntIdx 2) =
     Some (Inl (ParseError ''notes''), ex_heap @ [ex_record ''val2017/notes.txt'']) \<and>
   py_int (image_stem ''val2017/000001.jpg'') = Some 1 \<and>
   (\<forall>s h1. get_single_item (ex_ds [0, 1, 2] True False False) ex_heap (IntIdx 1) \<noteq>
              (Inl (ParseError s), h1)) \<and>
   (\<forall>index s h1. getitem (ex_ds [0, 1] True False False) (sconst 0) ex_heap index \<noteq>
              Some (Inl (ParseError s), h1))"
proof -
  let ?ds = "ex_ds [0, 1, 2] True False False"
  have stem: "image_stem ''val2017/notes.txt'' = ''notes''" by code_simp
  have bad: "py_int (image_stem ''val2017/notes.txt'') = None" by code_simp
  have good: "py_int (image_stem ''val2017/000001.jpg'') = Some 1" by code_simp
  have good2: "py_int (image_stem ''val2017/000002.jpg'') = Some 2" by code_simp
  have r2: "image (ex_heap ! (data ?ds ! nat 2)) = Some ''val2017/notes.txt''"
    by (simp add: ex_ds_def ex_heap_def ex_record_def)
  have r1: "image (ex_heap ! (data ?ds ! nat 1)) = Some ''val2017/000001.jpg''"
    by (simp add: ex_ds_def ex_heap_def ex_record_def)
  have in2: "(2::int) < int (len ?ds)" and in1: "(1::int) < int (len ?ds)"
    by (simp_all add: ex_len)
  have a: "getitem ?ds (sconst 0) ex_heap (IntIdx 2) =
             Some (Inl (ParseError ''notes''), ex_heap @ [ex_record ''val2017/notes.txt''])"
    using malformed_filename_parse_error[OF _ in2 r2, of "sconst 0"] bad
    by (simp add: stem ex_ds_def ex_heap_def)
  have b: "\<forall>s h1. get_single_item ?ds ex_heap (IntIdx 1) \<noteq> (Inl (ParseError s), h1)"
    using malformed_filename_parse_error[OF _ in1 r1, of "sconst 0"] good by simp
  have all_good: "\<forall>b \<in> set (data (ex_ds [0, 1] True False False)). b < length ex_heap \<and>
      (\<exists>q. image (ex_heap ! b) = Some q \<and> py_int (image_stem q) \<noteq> None)"
    using good good2 by (simp add: ex_ds_def ex_heap_def ex_record_def)
  have r0: "image (ex_heap ! (data (ex_ds [0, 1] True False False) ! nat 0)) = Some ''val2017/000002.jpg''"
    by (simp add: ex_ds_def ex_heap_def ex_record_def)
  have c: "\<forall>index s h1. getitem (ex_ds [0, 1] True False False) (sconst 0) ex_heap index \<noteq>
              Some (Inl (ParseError s), h1)"
    using malformed_filename_parse_error[OF _ _ r0, of "sconst 0"] all_good
    by (simp add: ex_len)
  from bad a good b c show ?thesis by simp
qed

subsection \<open>Ownership of the samples\<close>



end
